(* ===== verification/Prelude.thy ===== *)
theory Prelude
  imports Main "HOL-Library.Log_Nat"
begin

text \<open>
  Shared vocabulary of the model of \<^verbatim>\<open>src/resources/public/upload.js\<close>:
  JavaScript strings as lists of Unicode code points, the completion records of
  ECMAScript statements (normal, return, throw) with sequential composition, and
  the facts about powers of two on rationals that the binary64 model and the
  percentage lemmas share.  The collection \<open>js_simps\<close> gathers the equations
  that evaluate handlers and tasks on concrete pages.
\<close>

named_theorems js_simps "equations evaluating the JavaScript model on concrete states"

subsection \<open>Strings\<close>

text \<open>
  A JavaScript string is modelled as its sequence of Unicode code points
  (\<open>ustring\<close>).  ASCII text is written with \<open>ustr\<close>; the emoji of the
  status messages are written as their code points.
\<close>

type_synonym ustring = "nat list"

definition ustr :: "string \<Rightarrow> ustring" where
  "ustr s = map of_char s"

subsection \<open>Completion records\<close>

text \<open>
  The outcome of running a statement list on a state: it completes normally,
  returns early, or throws an error.  The state is kept in every case, since
  the effects before a \<^verbatim>\<open>return\<close> or a \<^verbatim>\<open>throw\<close> persist.
\<close>

datatype js_error = TypeError string | InvalidStateError

datatype 'a completion = Normal 'a | Return 'a | Throw js_error 'a

primrec final_state :: "'a completion \<Rightarrow> 'a" where
  "final_state (Normal s) = s"
| "final_state (Return s) = s"
| "final_state (Throw e s) = s"

definition seq :: "('a \<Rightarrow> 'a completion) \<Rightarrow> ('a \<Rightarrow> 'a completion) \<Rightarrow> 'a \<Rightarrow> 'a completion" where
  "seq f g s = (case f s of Normal s' \<Rightarrow> g s' | c \<Rightarrow> c)"

subsection \<open>Lemmas on strings and completions\<close>

lemma ustr_Nil [simp, js_simps]: "ustr [] = []"
  and ustr_Cons [simp, js_simps]: "ustr (c # s) = of_char c # ustr s"
  and ustr_append [simp]: "ustr (s @ t) = ustr s @ ustr t"
  by (simp_all add: ustr_def)

lemma ustr_ascii: "x \<in> set (ustr s) \<Longrightarrow> x < 256"
  by (auto simp: ustr_def)

lemma seq_Normal [simp, js_simps]: "f s = Normal s' \<Longrightarrow> seq f g s = g s'"
  and seq_Return [simp, js_simps]: "f s = Return s' \<Longrightarrow> seq f g s = Return s'"
  and seq_Throw [simp, js_simps]: "f s = Throw e s' \<Longrightarrow> seq f g s = Throw e s'"
  by (simp_all add: seq_def)

subsection \<open>Powers of two on the rationals\<close>

lemma pow2_less_iff [simp]: "(2::rat) powi a < 2 powi b \<longleftrightarrow> a < b"
proof
  assume h: "(2::rat) powi a < 2 powi b"
  show "a < b"
  proof (rule ccontr)
    assume "\<not> a < b"
    then have "b < a \<or> b = a" by auto
    then have "(2::rat) powi b \<le> 2 powi a"
      using power_int_strict_increasing [of b a "2::rat"] by auto
    with h show False by simp
  qed
qed (rule power_int_strict_increasing, simp_all)

lemma pow2_le_iff [simp]: "(2::rat) powi a \<le> 2 powi b \<longleftrightarrow> a \<le> b"
  by (meson not_less pow2_less_iff)

lemma pow2_split: "(2::rat) powi (e + int k) = of_int (2 ^ k) * 2 powi e"
  by (simp add: power_int_add mult.commute)

lemma pow2_bitlen:
  fixes p :: int assumes "0 < p"
  shows "(2::rat) powi (bitlen p - 1) \<le> of_int p \<and> of_int p < (2::rat) powi bitlen p"
proof -
  have b: "2 ^ nat (bitlen p - 1) \<le> p \<and> p < 2 ^ nat (bitlen p)"
    using bitlen_bounds [OF assms] .
  have "1 \<le> bitlen p" using assms by (simp add: bitlen_alt_def)
  then have "(2::rat) powi (bitlen p - 1) = of_int (2 ^ nat (bitlen p - 1))"
       "(2::rat) powi bitlen p = of_int (2 ^ nat (bitlen p))"
    by (simp_all add: power_int_def)
  with b show ?thesis by (simp only: of_int_le_iff of_int_less_iff)
qed

end
