(* ===== verification/Binary64.thy ===== *)
theory Binary64
  imports Prelude
begin

text \<open>
  JavaScript numbers.  Every number of the script is an IEEE 754 binary64
  value; the two arithmetic operations of \<^verbatim>\<open>upload.js\<close>,
  \<^verbatim>\<open>e.loaded / e.total\<close> (line 36) and \<^verbatim>\<open>100 * percentage\<close> (line 9),
  round their exact result to the nearest double, ties to even.  A finite
  double is represented by its exact rational value; \<open>fl\<close> is the rounding,
  with 53 significant bits and the subnormal quantum \<open>2 powi -1074\<close>, and
  \<open>to_num\<close> adds the overflow to the infinities.  Signed zero is not
  distinguished: no observable output of the script depends on it.
  The conversion to a string is in theory \<open>NumberString\<close>.
\<close>

subsection \<open>Rounding to binary64\<close>

definition round_even :: "rat \<Rightarrow> int" where
  "round_even r = (let n = \<lfloor>r\<rfloor>; d = r - of_int n in
     if d < 1/2 then n else if 1/2 < d then n + 1 else if even n then n else n + 1)"

definition ilog2 :: "rat \<Rightarrow> int" where
  "ilog2 x = (let (p, q) = quotient_of x; k = bitlen p - bitlen q in
              if 2 powi k \<le> x then k else k - 1)"

definition ulp_exp :: "rat \<Rightarrow> int" where
  "ulp_exp x = max (ilog2 x - 52) (-1074)"

definition round_pos :: "rat \<Rightarrow> rat" where
  "round_pos x = of_int (round_even (x / 2 powi ulp_exp x)) * 2 powi ulp_exp x"

definition fl :: "rat \<Rightarrow> rat" where
  "fl x = (if x = 0 then 0 else if 0 < x then round_pos x else - round_pos (- x))"

subsection \<open>JavaScript numbers and their operations\<close>

datatype jsnum = Num rat | NaN | PosInf | NegInf

text \<open>The overflow threshold \<open>2 powi 1024\<close>, written out (lemma \<open>overflow_bound_pow2\<close>).\<close>

definition overflow_bound :: rat where
  "overflow_bound = 179769313486231590772930519078902473361797697894230657273430081157732675805500963132708477322407536021120113879871393357658789768814416622492847430639474124377767893424865485276302219601246094119453082952085005768838150682342462881473913110540827237163350510684586298239947245938479716304835356329624224137216"

definition to_num :: "rat \<Rightarrow> jsnum" where
  "to_num x = (let r = fl x in
     if overflow_bound \<le> r then PosInf else if r \<le> - overflow_bound then NegInf else Num r)"

text \<open>WebIDL conversion of an \<^verbatim>\<open>unsigned long long\<close> (a progress event's
  \<^verbatim>\<open>loaded\<close> and \<^verbatim>\<open>total\<close>) to a JavaScript number.\<close>

definition js_of_nat :: "nat \<Rightarrow> jsnum" where
  "js_of_nat n = to_num (of_nat n)"

fun js_div :: "jsnum \<Rightarrow> jsnum \<Rightarrow> jsnum" where
  "js_div (Num a) (Num b) =
     (if b = 0 then (if a = 0 then NaN else if 0 < a then PosInf else NegInf)
      else to_num (a / b))"
| "js_div NaN y = NaN"
| "js_div x NaN = NaN"
| "js_div (Num a) y = Num 0"
| "js_div PosInf (Num b) = (if b < 0 then NegInf else PosInf)"
| "js_div NegInf (Num b) = (if b < 0 then PosInf else NegInf)"
| "js_div x y = NaN"

fun js_mul :: "jsnum \<Rightarrow> jsnum \<Rightarrow> jsnum" where
  "js_mul (Num a) (Num b) = to_num (a * b)"
| "js_mul NaN y = NaN"
| "js_mul x NaN = NaN"
| "js_mul (Num a) y = (if a = 0 then NaN else if (0 < a) = (y = PosInf) then PosInf else NegInf)"
| "js_mul x (Num b) = (if b = 0 then NaN else if (0 < b) = (x = PosInf) then PosInf else NegInf)"
| "js_mul x y = (if x = y then PosInf else NegInf)"

fun js_floor :: "jsnum \<Rightarrow> jsnum" where
  "js_floor (Num a) = Num (of_int \<lfloor>a\<rfloor>)"
| "js_floor x = x"

fun is_finite :: "jsnum \<Rightarrow> bool" where
  "is_finite (Num a) = True"
| "is_finite x = False"

text \<open>
  The abstract specification of the rounding: the binary64 values with an
  unbounded exponent, \<open>m * 2 powi e\<close> with an integer significand of at most
  53 bits and an exponent no smaller than the subnormal one.  (The significand
  \<open>2^53\<close> is \<open>2^52\<close> at the next exponent.)  Overflow is decided after the
  rounding, by \<open>to_num\<close>, as IEEE 754 does.
\<close>

definition binary64_grid :: "rat \<Rightarrow> bool" where
  "binary64_grid r \<longleftrightarrow> (\<exists>m e. r = of_int m * 2 powi e \<and> \<bar>m\<bar> \<le> 2 ^ 53 \<and> -1074 \<le> e)"

subsection \<open>Rounding: helper lemmas\<close>

lemma round_even_of_int [simp]: "round_even (of_int n) = n"
  by (simp add: round_even_def)

lemma round_even_bounds: "\<lfloor>r\<rfloor> \<le> round_even r \<and> round_even r \<le> \<lfloor>r\<rfloor> + 1"
  by (simp add: round_even_def Let_def)

lemma round_even_close: "\<bar>of_int (round_even r) - r\<bar> \<le> 1/2"
proof -
  define n where "n = \<lfloor>r\<rfloor>"
  have lo: "of_int n \<le> r" and hi: "r < of_int n + 1"
    using floor_correct [of r] by (simp_all add: n_def)
  have "round_even r = (if r - of_int n < 1/2 then n else if 1/2 < r - of_int n then n + 1
                        else if even n then n else n + 1)"
    by (simp add: round_even_def n_def Let_def)
  with lo hi show ?thesis by (auto simp: abs_if)
qed

lemma round_even_mono:
  assumes "r \<le> s" shows "round_even r \<le> round_even s"
proof (cases "\<lfloor>r\<rfloor> = \<lfloor>s\<rfloor>")
  case True
  with assms show ?thesis by (auto simp: round_even_def Let_def)
next
  case False
  with assms have "\<lfloor>r\<rfloor> + 1 \<le> \<lfloor>s\<rfloor>" by (meson floor_mono le_less zless_imp_add1_zle)
  with round_even_bounds [of r] round_even_bounds [of s] show ?thesis by linarith
qed

subsection \<open>The binary exponent\<close>

lemma ilog2_bounds:
  assumes "0 < x"
  shows "2 powi ilog2 x \<le> x \<and> x < 2 powi (ilog2 x + 1)"
proof -
  obtain p q where pq: "quotient_of x = (p, q)" by (cases "quotient_of x")
  then have x: "x = of_int p / of_int q" and q: "0 < q"
    by (simp_all add: quotient_of_div quotient_of_denom_pos)
  with assms have p: "0 < p" by (simp add: zero_less_divide_iff)
  define k where "k = bitlen p - bitlen q"
  have a: "2 powi (bitlen p - 1) \<le> (of_int p::rat) \<and> of_int p < (2::rat) powi bitlen p"
    and b: "2 powi (bitlen q - 1) \<le> (of_int q::rat) \<and> of_int q < (2::rat) powi bitlen q"
    using pow2_bitlen [OF p] pow2_bitlen [OF q] by auto
  have "(2::rat) powi (k - 1) = 2 powi (bitlen p - 1) / 2 powi bitlen q"
    by (simp add: k_def power_int_diff)
  also have "\<dots> \<le> x"
    unfolding x using a b q p by (intro frac_le) auto
  finally have lo: "(2::rat) powi (k - 1) \<le> x" .
  have "x < 2 powi bitlen p / 2 powi (bitlen q - 1)"
    unfolding x using a b q p by (intro frac_less) auto
  also have "\<dots> = 2 powi (bitlen p - (bitlen q - 1))"
    by (rule power_int_diff [symmetric]) simp
  also have "bitlen p - (bitlen q - 1) = k + 1"
    by (simp add: k_def)
  finally have hi: "x < 2 powi (k + 1)" .
  from lo hi show ?thesis
    by (auto simp: ilog2_def pq k_def [symmetric] Let_def)
qed

lemma ilog2_unique:
  assumes "2 powi k \<le> x" "x < 2 powi (k + 1)"
  shows "ilog2 x = k"
proof -
  have x: "0 < x" using assms(1) by (rule order.strict_trans2 [rotated]) simp
  from ilog2_bounds [OF x] have a: "2 powi ilog2 x \<le> x" "x < 2 powi (ilog2 x + 1)" by auto
  have "(2::rat) powi k < 2 powi (ilog2 x + 1)" using assms(1) a(2) by linarith
  then have "k < ilog2 x + 1" by simp
  moreover have "(2::rat) powi ilog2 x < 2 powi (k + 1)" using assms(2) a(1) by linarith
  then have "ilog2 x < k + 1" by simp
  ultimately show ?thesis by simp
qed

lemma ilog2_mono:
  assumes "0 < x" "x \<le> y" shows "ilog2 x \<le> ilog2 y"
proof -
  have "0 < y" using assms by simp
  have "(2::rat) powi ilog2 x \<le> x" "y < 2 powi (ilog2 y + 1)"
    using ilog2_bounds [OF assms(1)] ilog2_bounds [OF \<open>0 < y\<close>] by auto
  with assms(2) have "(2::rat) powi ilog2 x < 2 powi (ilog2 y + 1)" by linarith
  then show ?thesis by simp
qed

lemma ulp_exp_mono: "0 < x \<Longrightarrow> x \<le> y \<Longrightarrow> ulp_exp x \<le> ulp_exp y"
  using ilog2_mono [of x y] by (simp add: ulp_exp_def)

lemma scaled_less:
  assumes "0 < x" shows "x < 2 powi (ulp_exp x + 53)"
proof -
  have "x < 2 powi (ilog2 x + 1)" using ilog2_bounds [OF assms] by simp
  also have "\<dots> \<le> 2 powi (ulp_exp x + 53)" by (simp add: ulp_exp_def)
  finally show ?thesis .
qed

lemma scaled_ge:
  assumes "0 < x" "-1074 < ulp_exp x" shows "2 powi (ulp_exp x + 52) \<le> x"
proof -
  from assms(2) have "ulp_exp x + 52 = ilog2 x" by (simp add: ulp_exp_def)
  with ilog2_bounds [OF assms(1)] show ?thesis by simp
qed

subsection \<open>Monotonicity and exactness of the rounding\<close>

lemma round_pos_le_pow2:
  assumes "0 < x" shows "round_pos x \<le> 2 powi (ulp_exp x + 53)"
proof -
  let ?e = "ulp_exp x"
  have "x / 2 powi ?e \<le> of_int (2 ^ 53)"
    using scaled_less [OF assms] pow2_split [of ?e 53] by (simp add: pos_divide_le_eq)
  then have "round_even (x / 2 powi ?e) \<le> round_even (of_int (2 ^ 53))"
    by (rule round_even_mono)
  then have "round_even (x / 2 powi ?e) \<le> 2 ^ 53"
    by (simp only: round_even_of_int)
  then have "of_int (round_even (x / 2 powi ?e)) * 2 powi ?e \<le> of_int (2 ^ 53) * (2::rat) powi ?e"
    by (intro mult_right_mono) (simp_all only: of_int_le_iff, simp)
  then show ?thesis using pow2_split [of ?e 53] by (simp add: round_pos_def)
qed

lemma round_pos_ge_pow2:
  assumes "0 < x" "-1074 < ulp_exp x" shows "2 powi (ulp_exp x + 52) \<le> round_pos x"
proof -
  let ?e = "ulp_exp x"
  have "of_int (2 ^ 52) \<le> x / 2 powi ?e"
    using scaled_ge [OF assms] pow2_split [of ?e 52] by (simp add: pos_le_divide_eq)
  then have "round_even (of_int (2 ^ 52)) \<le> round_even (x / 2 powi ?e)"
    by (rule round_even_mono)
  then have "2 ^ 52 \<le> round_even (x / 2 powi ?e)"
    by (simp only: round_even_of_int)
  then have "of_int (2 ^ 52) * (2::rat) powi ?e \<le> of_int (round_even (x / 2 powi ?e)) * 2 powi ?e"
    by (intro mult_right_mono) (simp_all only: of_int_le_iff, simp)
  then show ?thesis using pow2_split [of ?e 52] by (simp add: round_pos_def)
qed

lemma round_pos_mono:
  assumes "0 < x" "x \<le> y" shows "round_pos x \<le> round_pos y"
proof (cases "ulp_exp x = ulp_exp y")
  case True
  have "x / 2 powi ulp_exp y \<le> y / 2 powi ulp_exp y"
    using assms(2) by (simp add: divide_right_mono)
  then have "round_even (x / 2 powi ulp_exp y) \<le> round_even (y / 2 powi ulp_exp y)"
    by (rule round_even_mono)
  then show ?thesis by (simp add: round_pos_def True)
next
  case False
  with ulp_exp_mono [OF assms] have lt: "ulp_exp x < ulp_exp y" by simp
  have y: "0 < y" using assms by simp
  have "round_pos x \<le> 2 powi (ulp_exp x + 53)" by (rule round_pos_le_pow2 [OF assms(1)])
  also have "\<dots> \<le> 2 powi (ulp_exp y + 52)" using lt by simp
  also have "\<dots> \<le> round_pos y"
    using lt by (intro round_pos_ge_pow2 [OF y]) (simp add: ulp_exp_def)
  finally show ?thesis .
qed

lemma round_pos_nonneg:
  assumes "0 < x" shows "0 \<le> round_pos x"
proof -
  have "round_even (of_int 0) \<le> round_even (x / 2 powi ulp_exp x)"
    using assms by (intro round_even_mono) simp
  then have "0 \<le> round_even (x / 2 powi ulp_exp x)" by (simp only: round_even_of_int)
  then show ?thesis by (simp add: round_pos_def)
qed

lemma fl_mono: "x \<le> y \<Longrightarrow> fl x \<le> fl y"
  using round_pos_mono [of x y] round_pos_mono [of "-y" "-x"]
    round_pos_nonneg [of x] round_pos_nonneg [of y] round_pos_nonneg [of "-x"]
  by (auto simp: fl_def)

lemma fl_nonneg: "0 \<le> x \<Longrightarrow> 0 \<le> fl x"
  using fl_mono [of 0 x] by (simp add: fl_def)

lemma round_pos_exact:
  assumes "x / 2 powi ulp_exp x = of_int k" shows "round_pos x = x"
proof -
  have "x = of_int k * 2 powi ulp_exp x" using assms by (simp add: divide_eq_eq)
  with assms show ?thesis by (simp add: round_pos_def)
qed

lemma round_pos_of_int:
  assumes "0 < n" "n < 2 ^ 53" shows "round_pos (of_int n) = of_int n"
proof -
  have pos: "(0::rat) < of_int n" using assms by simp
  have "(2::rat) powi ilog2 (of_int n) < 2 powi 53"
    using ilog2_bounds [OF pos] assms(2) by (simp add: le_less_trans)
  then have "ilog2 (of_int n) < 53" by (simp only: pow2_less_iff)
  then have "ulp_exp (of_int n) \<le> 0" by (simp add: ulp_exp_def)
  define m where "m = nat (- ulp_exp (of_int n))"
  then have m: "ulp_exp (of_int n) = - int m"
    using \<open>ulp_exp (of_int n) \<le> 0\<close> by simp
  have "(of_int n :: rat) / 2 powi (- int m) = of_int (n * 2 ^ m)"
    by (simp add: power_int_minus divide_inverse)
  then show ?thesis by (intro round_pos_exact) (simp only: m)
qed

lemma fl_of_int:
  assumes "\<bar>n\<bar> < 2 ^ 53" shows "fl (of_int n) = of_int n"
  using round_pos_of_int [of n] round_pos_of_int [of "- n"] assms by (auto simp: fl_def)

lemma fl_of_nat: "n < 2 ^ 53 \<Longrightarrow> fl (of_nat n) = of_nat n"
  using fl_of_int [of "int n"] by simp

subsection \<open>Conversions that stay finite\<close>

lemma fl_pow2:
  assumes "-1074 \<le> k" shows "fl (2 powi k) = 2 powi k"
proof -
  have "ilog2 (2 powi k) = k" by (rule ilog2_unique) simp_all
  then have u: "ulp_exp (2 powi k) = max (k - 52) (-1074)" by (simp add: ulp_exp_def)
  define m where "m = nat (k - max (k - 52) (-1074))"
  have km: "k = max (k - 52) (-1074) + int m" using assms by (simp add: m_def)
  have "(2::rat) powi k / 2 powi ulp_exp (2 powi k) = of_int (2 ^ m)"
    by (subst (1) km, simp only: u pow2_split) simp
  then have "round_pos (2 powi k) = 2 powi k" by (rule round_pos_exact)
  then show ?thesis by (simp add: fl_def)
qed

lemma fl_le_pow2: "x \<le> 2 powi k \<Longrightarrow> -1074 \<le> k \<Longrightarrow> fl x \<le> 2 powi k"
  using fl_mono [of x "2 powi k"] fl_pow2 [of k] by simp

lemma overflow_bound_pow2: "overflow_bound = 2 powi 1024"
  by (simp add: overflow_bound_def)

lemma to_num_Num: "fl x < 2 powi 1024 \<Longrightarrow> - (2 powi 1024) < fl x \<Longrightarrow> to_num x = Num (fl x)"
  by (simp add: to_num_def Let_def overflow_bound_pow2)

lemma js_of_nat_Num:
  assumes "n \<le> 2 ^ 64" shows "js_of_nat n = Num (fl (of_nat n))"
proof -
  have "(of_nat n :: rat) \<le> 2 powi 64" using assms by (simp add: of_nat_le_iff [symmetric])
  then have "fl (of_nat n) \<le> 2 powi 64" by (rule fl_le_pow2) simp
  moreover have "0 \<le> fl (of_nat n)" by (simp add: fl_nonneg)
  ultimately show ?thesis unfolding js_of_nat_def
    by (intro to_num_Num) (simp_all add: order.strict_trans1)
qed

lemma fl_one [simp]: "fl 1 = 1"
  using fl_of_int [of 1] by simp

lemma fl_100 [simp]: "fl 100 = 100"
  using fl_of_int [of 100] by simp

lemma fl_pos: "1 \<le> x \<Longrightarrow> 1 \<le> fl x"
  using fl_mono [of 1 x] by simp

subsection \<open>The nearest double\<close>

lemma nearest_of_two:
  fixes a b c r :: rat
  assumes "a = b \<and> r - b \<le> 1/2 \<or> a = b + 1 \<and> 1/2 \<le> r - b" "b \<le> r" "r < b + 1"
    "c \<le> b \<or> b + 1 \<le> c"
  shows "\<bar>a - r\<bar> \<le> \<bar>c - r\<bar>"
  using assms by (auto simp: abs_if)

lemma round_even_nearest: "\<bar>of_int (round_even r) - r\<bar> \<le> \<bar>of_int j - r\<bar>"
proof -
  define n where "n = \<lfloor>r\<rfloor>"
  have lo: "of_int n \<le> r" and hi: "r < of_int n + 1"
    using floor_correct [of r] by (simp_all add: n_def)
  have "round_even r = n \<and> r - of_int n \<le> 1/2 \<or> round_even r = n + 1 \<and> 1/2 \<le> r - of_int n"
    by (simp add: round_even_def n_def [symmetric] Let_def)
  then have re: "of_int (round_even r) = (of_int n::rat) \<and> r - of_int n \<le> 1/2 \<or>
      of_int (round_even r) = (of_int n::rat) + 1 \<and> 1/2 \<le> r - of_int n"
    by auto
  have "(of_int j::rat) \<le> of_int n \<or> of_int (n + 1) \<le> (of_int j::rat)"
    unfolding of_int_le_iff by linarith
  then have "(of_int j::rat) \<le> of_int n \<or> of_int n + 1 \<le> (of_int j::rat)"
    by simp
  with re lo hi show ?thesis by (rule nearest_of_two)
qed

lemma grid_multiple:
  assumes "e \<le> e'" shows "of_int m * (2::rat) powi e' = of_int (m * 2 ^ nat (e' - e)) * 2 powi e"
proof -
  have "e' = e + int (nat (e' - e))" using assms by simp
  then have "(2::rat) powi e' = of_int (2 ^ nat (e' - e)) * 2 powi e"
    by (metis pow2_split)
  then show ?thesis by simp
qed

lemma round_pos_grid:
  assumes "0 < x" shows "binary64_grid (round_pos x)"
proof -
  have p: "(0::rat) < 2 powi ulp_exp x" by simp
  have "0 \<le> of_int (round_even (x / 2 powi ulp_exp x)) * (2::rat) powi ulp_exp x"
    using round_pos_nonneg [OF assms] by (simp add: round_pos_def)
  then have "0 \<le> round_even (x / 2 powi ulp_exp x)"
    using p by (simp add: zero_le_mult_iff)
  moreover have "round_even (x / 2 powi ulp_exp x) \<le> 2 ^ 53"
    using round_pos_le_pow2 [OF assms] pow2_split [of "ulp_exp x" 53]
    by (simp add: round_pos_def mult_le_cancel_right)
  ultimately show ?thesis unfolding binary64_grid_def round_pos_def
    by (intro exI [of _ "round_even (x / 2 powi ulp_exp x)"] exI [of _ "ulp_exp x"])
       (simp add: ulp_exp_def)
qed

lemma round_pos_nearest_mult:
  assumes "0 < x" shows "\<bar>round_pos x - x\<bar> \<le> \<bar>of_int j * 2 powi ulp_exp x - x\<bar>"
proof -
  define u where "u = (2::rat) powi ulp_exp x"
  have u: "0 < u" by (simp add: u_def)
  have scale: "\<bar>of_int k * u - x\<bar> = u * \<bar>of_int k - x / u\<bar>" for k
  proof -
    have "of_int k * u - x = u * (of_int k - x / u)" using u by (simp add: field_simps)
    then show ?thesis using u by (simp add: abs_mult)
  qed
  have "\<bar>round_pos x - x\<bar> = u * \<bar>of_int (round_even (x / u)) - x / u\<bar>"
    using scale by (simp add: round_pos_def u_def)
  also have "\<dots> \<le> u * \<bar>of_int j - x / u\<bar>"
    using u round_even_nearest by (simp add: mult_left_mono)
  also have "\<dots> = \<bar>of_int j * 2 powi ulp_exp x - x\<bar>"
    using scale by (simp add: u_def)
  finally show ?thesis .
qed

lemma grid_le_pow2:
  assumes "\<bar>m\<bar> \<le> 2 ^ 53" shows "of_int m * (2::rat) powi e \<le> 2 powi (e + 53)"
proof -
  have "of_int m \<le> (of_int (2 ^ 53) :: rat)" using assms by linarith
  then have "of_int m * (2::rat) powi e \<le> of_int (2 ^ 53) * 2 powi e"
    by (rule mult_right_mono) simp
  then show ?thesis using pow2_split [of e 53] by simp
qed

lemma round_pos_nearest:
  assumes "0 < x" "binary64_grid d" shows "\<bar>round_pos x - x\<bar> \<le> \<bar>d - x\<bar>"
proof -
  obtain m e' where d: "d = of_int m * 2 powi e'" "\<bar>m\<bar> \<le> 2 ^ 53" "-1074 \<le> e'"
    using assms(2) unfolding binary64_grid_def by blast
  show ?thesis
  proof (cases "ulp_exp x \<le> e'")
    case True
    then show ?thesis
      using round_pos_nearest_mult [OF assms(1), of "m * 2 ^ nat (e' - ulp_exp x)"]
      by (simp only: d(1) grid_multiple)
  next
    case False
    with d(3) have "-1074 < ulp_exp x" by linarith
    then have top: "2 powi (ulp_exp x + 52) \<le> x" by (rule scaled_ge [OF assms(1)])
    have "d \<le> 2 powi (e' + 53)" using grid_le_pow2 [OF d(2)] d(1) by simp
    also have "\<dots> \<le> 2 powi (ulp_exp x + 52)" using False by simp
    finally have below: "d \<le> 2 powi (ulp_exp x + 52)" .
    have "\<bar>round_pos x - x\<bar> \<le> \<bar>of_int (2 ^ 52) * 2 powi ulp_exp x - x\<bar>"
      by (rule round_pos_nearest_mult [OF assms(1)])
    also have "\<dots> = x - 2 powi (ulp_exp x + 52)"
      using top pow2_split [of "ulp_exp x" 52] by simp
    also have "\<dots> \<le> \<bar>d - x\<bar>" using below by simp
    finally show ?thesis .
  qed
qed

lemma binary64_grid_uminus:
  assumes "binary64_grid d" shows "binary64_grid (- d)"
proof -
  obtain m e where "d = of_int m * 2 powi e" "\<bar>m\<bar> \<le> 2 ^ 53" "-1074 \<le> e"
    using assms unfolding binary64_grid_def by blast
  then show ?thesis unfolding binary64_grid_def
    by (intro exI [of _ "- m"] exI [of _ e]) simp
qed

lemma binary64_grid_zero: "binary64_grid 0"
  unfolding binary64_grid_def by (intro exI [of _ 0] exI [of _ 0]) simp

lemma round_even_tie:
  assumes "r - of_int \<lfloor>r\<rfloor> = 1/2"
  shows "even (round_even r) \<and> \<bar>of_int (round_even r) - r\<bar> = 1/2"
proof (cases "even \<lfloor>r\<rfloor>")
  case True
  with assms show ?thesis by (simp add: round_even_def Let_def)
next
  case False
  with assms show ?thesis by (simp add: round_even_def Let_def)
qed

subsection \<open>Relative error of the rounding\<close>

lemma fl_rel_error:
  assumes k: "-1021 \<le> k" and x: "2 powi k \<le> x"
  shows "\<bar>fl x - x\<bar> \<le> x / 2 ^ 53"
proof -
  have x0: "0 < x" using x by (rule order.strict_trans2 [rotated]) simp
  have "ilog2 (2 powi k) = k" by (rule ilog2_unique) simp_all
  with ilog2_mono [OF _ x] have il: "k \<le> ilog2 x" by simp
  define e where "e = ulp_exp x"
  have e: "e = ilog2 x - 52" using il k by (simp add: e_def ulp_exp_def)
  define u where "u = (2::rat) powi e"
  have u: "0 < u" by (simp add: u_def)
  have "-1074 < ulp_exp x" using e k il by (simp add: e_def)
  from scaled_ge [OF x0 this] have "of_int (2 ^ 52) * u \<le> x"
    using pow2_split [of e 52] by (simp add: u_def e_def)
  then have half: "u / 2 \<le> x / 2 ^ 53" by simp
  have "fl x - x = u * (of_int (round_even (x / u)) - x / u)"
    using x0 u by (simp add: fl_def round_pos_def u_def e_def field_simps)
  then have "\<bar>fl x - x\<bar> = u * \<bar>of_int (round_even (x / u)) - x / u\<bar>"
    using u by (simp add: abs_mult)
  also have "\<dots> \<le> u * (1 / 2)" using u round_even_close by (intro mult_left_mono) simp_all
  finally show ?thesis using half by simp
qed

lemma fl_rel_bounds:
  assumes "-1021 \<le> k" "2 powi k \<le> x"
  shows "x * (1 - 1 / 2 ^ 53) \<le> fl x \<and> fl x \<le> x * (1 + 1 / 2 ^ 53)"
proof -
  from fl_rel_error [OF assms]
  have "fl x - x \<le> x / 2 ^ 53 \<and> - (fl x - x) \<le> x / 2 ^ 53" by (simp only: abs_le_iff)
  then have le: "x - x / 2 ^ 53 \<le> fl x" "fl x \<le> x + x / 2 ^ 53" by (elim conjE; linarith)+
  have m: "x * (1 - 1 / 2 ^ 53) = x - x / 2 ^ 53" "x * (1 + 1 / 2 ^ 53) = x + x / 2 ^ 53"
    by (simp_all add: algebra_simps)
  show ?thesis unfolding m using le by blast
qed

lemma pow2_neg: "(2::rat) powi (- int N) = 1 / 2 ^ N"
  by (simp add: power_int_minus divide_inverse)

lemma pow2_small_le: "1 / 2 ^ 65 \<le> x \<Longrightarrow> (2::rat) powi (-1000) \<le> x"
proof -
  have "(2::rat) powi (-1000) \<le> 2 powi (-65)" by (simp only: pow2_le_iff)
  also have "(2::rat) powi (- int 65) = 1 / 2 ^ 65" by (rule pow2_neg)
  then have "(2::rat) powi (-65) = 1 / 2 ^ 65" by (simp only: of_nat_numeral)
  finally show "1 / 2 ^ 65 \<le> x \<Longrightarrow> (2::rat) powi (-1000) \<le> x" by (rule order.trans)
qed

lemma fl_rel:
  "1 / 2 ^ 65 \<le> x \<Longrightarrow> x * (1 - 1 / 2 ^ 53) \<le> fl x \<and> fl x \<le> x * (1 + 1 / 2 ^ 53)"
  by (rule fl_rel_bounds [OF _ pow2_small_le]) simp_all

text \<open>A byte count below \<open>2^53\<close> becomes the JavaScript number of the same
  value: \<^verbatim>\<open>e.loaded\<close> and \<^verbatim>\<open>e.total\<close> are exact for any real upload.\<close>

lemma js_of_nat_exact: "n < 2 ^ 53 \<Longrightarrow> js_of_nat n = Num (of_nat n)"
  using js_of_nat_Num [of n] fl_of_nat [of n] by simp

text \<open>C22. Refinement of the rounding: \<open>fl x\<close> is a binary64 value, and no
  binary64 value is nearer to \<open>x\<close>.  So the quotient of line 36 and the
  product of line 9 are the results IEEE 754 prescribes (before overflow).\<close>

theorem fl_nearest:
  "binary64_grid (fl x) \<and> (\<forall>d. binary64_grid d \<longrightarrow> \<bar>fl x - x\<bar> \<le> \<bar>d - x\<bar>)"
proof (cases "0 < x")
  case True
  then show ?thesis by (simp add: fl_def round_pos_grid round_pos_nearest)
next
  case False
  show ?thesis
  proof (cases "x = 0")
    case True
    then show ?thesis by (simp add: fl_def binary64_grid_zero)
  next
    case False
    with \<open>\<not> 0 < x\<close> have neg: "0 < - x" by simp
    have "fl x = - round_pos (- x)" using neg by (simp add: fl_def)
    moreover have "\<bar>- round_pos (- x) - x\<bar> \<le> \<bar>d - x\<bar>" if "binary64_grid d" for d
    proof -
      have "\<bar>round_pos (- x) - (- x)\<bar> \<le> \<bar>- d - (- x)\<bar>"
        by (rule round_pos_nearest [OF neg binary64_grid_uminus [OF that]])
      then show ?thesis by (simp add: abs_minus_commute)
    qed
    ultimately show ?thesis using binary64_grid_uminus [OF round_pos_grid [OF neg]] by simp
  qed
qed

theorem fl_nearest_witness:
  "binary64_grid 0 \<and> \<bar>fl (1/10) - 1/10\<bar> \<le> \<bar>0 - 1/10\<bar>"
  using fl_nearest [of "1/10"] binary64_grid_zero by blast


text \<open>C24. Ties go to the even significand: when the exact result lies halfway
  between two doubles, \<open>fl\<close> returns the one whose significand is even, at
  half a quantum from the exact value.\<close>

theorem fl_tie_even:
  assumes "0 < x" "x / 2 powi ulp_exp x - of_int \<lfloor>x / 2 powi ulp_exp x\<rfloor> = 1/2"
  shows "\<exists>m. fl x = of_int (2 * m) * 2 powi ulp_exp x \<and> \<bar>fl x - x\<bar> = 2 powi ulp_exp x / 2"
proof -
  let ?u = "(2::rat) powi ulp_exp x"
  have u: "0 < ?u" by simp
  note t = round_even_tie [OF assms(2)]
  then obtain m where m: "round_even (x / ?u) = 2 * m" by (auto elim: evenE)
  have "fl x - x = ?u * (of_int (round_even (x / ?u)) - x / ?u)"
    using assms(1) u by (simp add: fl_def round_pos_def field_simps)
  then have "\<bar>fl x - x\<bar> = ?u / 2" using t u by (simp add: abs_mult)
  moreover have "fl x = of_int (2 * m) * ?u" using assms(1) m by (simp add: fl_def round_pos_def)
  ultimately show ?thesis by blast
qed

theorem fl_tie_even_witness:
  "0 < (2 ^ 53 + 1 :: rat) \<and> (2 ^ 53 + 1 :: rat) / 2 powi ulp_exp (2 ^ 53 + 1) -
     of_int \<lfloor>(2 ^ 53 + 1 :: rat) / 2 powi ulp_exp (2 ^ 53 + 1)\<rfloor> = 1/2 \<and>
   fl (2 ^ 53 + 1) = 2 ^ 53"
proof -
  have u: "ulp_exp (2 ^ 53 + 1 :: rat) = 1" by code_simp
  have "\<lfloor>(2 ^ 53 + 1 :: rat) / 2 powi 1\<rfloor> = 2 ^ 52" by (simp add: floor_eq_iff)
  then have h: "0 < (2 ^ 53 + 1 :: rat)" "(2 ^ 53 + 1 :: rat) / 2 powi ulp_exp (2 ^ 53 + 1) -
     of_int \<lfloor>(2 ^ 53 + 1 :: rat) / 2 powi ulp_exp (2 ^ 53 + 1)\<rfloor> = 1/2"
    by (simp_all only: u) simp_all
  have "fl (2 ^ 53 + 1) = (2 ^ 53 :: rat)" by code_simp
  with fl_tie_even [OF h] h show ?thesis by blast
qed

end
