(* ===== verification/NumberString.thy ===== *)
theory NumberString
  imports Binary64
begin

text \<open>
  The conversion of a number to a string, used by the template literal of
  line 10 (\<^verbatim>\<open>${formattedPercentage}\<close>), and its inverse.  Both are
  modelled from the ECMAScript specification, as the environment of the
  script: Number::toString (\<open>number_to_string\<close>) with the shortest
  round-trip digits and its four output formats, and StringToNumber
  (\<open>string_to_number\<close>), the reading of a numeric string.  The main lemma is
  the round trip for every finite double (\<open>number_to_string_roundtrip\<close>).
  Signed zero is not distinguished (\<^verbatim>\<open>-0\<close> prints as \<^verbatim>\<open>0\<close>).
\<close>

subsection \<open>Number::toString\<close>

text \<open>The decimal digits of a non-negative integer, most significant first,
  and their characters.\<close>

function digits10 :: "int \<Rightarrow> int list" where
  "digits10 i = (if i < 10 then [i] else digits10 (i div 10) @ [i mod 10])"
  by pat_completeness auto
termination by (relation "measure nat") auto

declare digits10.simps [simp del]

definition decimal :: "int \<Rightarrow> ustring" where
  "decimal i = map (\<lambda>d. nat (48 + d)) (digits10 i)"

text \<open>The decimal exponent of a positive rational: \<open>10 powi ilog10 x \<le> x <
  10 powi (ilog10 x + 1)\<close> (lemma \<open>ilog10_bounds\<close>), from the digit counts of
  the numerator and the denominator.\<close>

definition ilog10 :: "rat \<Rightarrow> int" where
  "ilog10 x = (let (p, q) = quotient_of x;
                   k = int (length (digits10 p)) - int (length (digits10 q))
               in if 10 powi k \<le> x then k else k - 1)"

text \<open>Step 5 of Number::toString, for a positive double \<open>x\<close>: the integers
  \<open>n\<close>, \<open>k \<ge> 1\<close> and \<open>s\<close> with \<open>10^(k-1) \<le> s < 10^k\<close> such that the double
  nearest to \<open>s * 10 powi (n - k)\<close> is \<open>x\<close>, with \<open>k\<close> as small as possible
  and, among the candidates, the one nearest to \<open>x\<close> (the even one on a
  tie).  At a given \<open>k\<close> only the two multiples of \<open>10 powi (n - k)\<close> around
  \<open>x\<close> can be candidates (\<open>nearest_digits\<close>); a carry to \<open>10^k\<close> moves to
  the next decade (\<open>pick_digits\<close>).  \<open>shortest_digits\<close> tries
  \<open>k = 1, 2, ...\<close> with fuel; \<open>pos_to_string\<close> gives it \<open>ilog10 x + 1075\<close>
  steps, enough because every double is a multiple of \<open>10 powi -1074\<close>
  (lemma \<open>pos_digits\<close>).\<close>

definition nearest_digits :: "rat \<Rightarrow> rat \<Rightarrow> int option" where
  "nearest_digits x q =
     (let lo = \<lfloor>x / q\<rfloor>; hi = \<lceil>x / q\<rceil>;
          ok_lo = (fl (of_int lo * q) = x); ok_hi = (fl (of_int hi * q) = x);
          dlo = \<bar>of_int lo * q - x\<bar>; dhi = \<bar>of_int hi * q - x\<bar>
      in if ok_lo \<and> ok_hi
         then Some (if dlo < dhi then lo else if dhi < dlo then hi else if even lo then lo else hi)
         else if ok_lo then Some lo else if ok_hi then Some hi else None)"

definition pick_digits :: "rat \<Rightarrow> int \<Rightarrow> nat \<Rightarrow> (int \<times> int) option" where
  "pick_digits x n k =
     (case nearest_digits x (10 powi (n - int k)) of
        None \<Rightarrow> None
      | Some s \<Rightarrow> if s = 10 ^ k then Some (n + 1, 10 ^ (k - 1)) else Some (n, s))"

fun shortest_digits :: "rat \<Rightarrow> int \<Rightarrow> nat \<Rightarrow> nat \<Rightarrow> (int \<times> nat \<times> int) option" where
  "shortest_digits x n k 0 = None"
| "shortest_digits x n k (Suc f) =
     (case pick_digits x n k of
        Some (n', s) \<Rightarrow> Some (n', k, s)
      | None \<Rightarrow> shortest_digits x n (Suc k) f)"

text \<open>Steps 6 to 10: the digits without a point (\<open>k \<le> n \<le> 21\<close>), with a
  point inside (\<open>0 < n \<le> 21\<close>), after \<^verbatim>\<open>0.\<close> and zeros
  (\<open>-6 < n \<le> 0\<close>), or in exponent notation.\<close>

definition format_decimal :: "int \<Rightarrow> nat \<Rightarrow> int \<Rightarrow> ustring" where
  "format_decimal n k s =
     (let ds = decimal s in
      if int k \<le> n \<and> n \<le> 21 then ds @ replicate (nat n - k) 48
      else if 0 < n \<and> n \<le> 21 then take (nat n) ds @ 46 # drop (nat n) ds
      else if -6 < n \<and> n \<le> 0 then [48, 46] @ replicate (nat (- n)) 48 @ ds
      else let e = n - 1; es = (if e < 0 then 45 else 43) # decimal \<bar>e\<bar>
           in if k = 1 then ds @ 101 # es else [hd ds, 46] @ tl ds @ 101 # es)"

definition pos_to_string :: "rat \<Rightarrow> ustring" where
  "pos_to_string x =
     (case shortest_digits x (ilog10 x + 1) 1 (nat (ilog10 x + 1075)) of
        Some (n, k, s) \<Rightarrow> format_decimal n k s
      | None \<Rightarrow> [])"

fun number_to_string :: "jsnum \<Rightarrow> ustring" where
  "number_to_string (Num x) =
     (if x = 0 then [48] else if x < 0 then 45 # pos_to_string (- x) else pos_to_string x)"
| "number_to_string NaN = ustr ''NaN''"
| "number_to_string PosInf = ustr ''Infinity''"
| "number_to_string NegInf = ustr ''-Infinity''"

subsection \<open>StringToNumber\<close>

text \<open>The abstract operation StringToNumber of ECMAScript, the reading of a
  string as a number: the StringNumericLiteral grammar after trimming white
  space and line terminators, with the empty string read as 0, the
  non-decimal integer literals \<^verbatim>\<open>0x\<close>, \<^verbatim>\<open>0o\<close>, \<^verbatim>\<open>0b\<close>, the signed
  \<^verbatim>\<open>Infinity\<close>, and the decimal literals with an optional fraction and
  exponent, whose mathematical value is rounded by \<open>to_num\<close>.  Anything
  else is NaN.  Characters are compared as integers.\<close>

definition js_whitespace :: "nat \<Rightarrow> bool" where
  "js_whitespace c \<longleftrightarrow> int c \<in> set [9, 10, 11, 12, 13, 32, 160, 5760, 8192, 8193, 8194, 8195, 8196, 8197,
     8198, 8199, 8200, 8201, 8202, 8232, 8233, 8239, 8287, 12288, 65279]"

definition js_trim :: "ustring \<Rightarrow> ustring" where
  "js_trim s = rev (dropWhile js_whitespace (rev (dropWhile js_whitespace s)))"

definition radix_digit :: "nat \<Rightarrow> nat \<Rightarrow> int option" where
  "radix_digit b c =
     (let i = int c;
          d = (if 48 \<le> i \<and> i \<le> 57 then i - 48 else if 97 \<le> i \<and> i \<le> 122 then i - 87
               else if 65 \<le> i \<and> i \<le> 90 then i - 55 else int b)
      in if d < int b then Some d else None)"

definition radix_value :: "nat \<Rightarrow> ustring \<Rightarrow> int option" where
  "radix_value b ds =
     (if ds \<noteq> [] \<and> list_all (\<lambda>c. radix_digit b c \<noteq> None) ds
      then Some (foldl (\<lambda>a c. int b * a + the (radix_digit b c)) 0 ds) else None)"

definition non_decimal :: "ustring \<Rightarrow> int option option" where
  "non_decimal t =
     (case t of
        c # x # ds \<Rightarrow>
          if int c \<noteq> 48 then None
          else if int x = 120 \<or> int x = 88 then Some (radix_value 16 ds)
          else if int x = 111 \<or> int x = 79 then Some (radix_value 8 ds)
          else if int x = 98 \<or> int x = 66 then Some (radix_value 2 ds) else None
      | _ \<Rightarrow> None)"

definition is_digit :: "nat \<Rightarrow> bool" where
  "is_digit c \<longleftrightarrow> 48 \<le> int c \<and> int c \<le> 57"

definition digits_value :: "ustring \<Rightarrow> int" where
  "digits_value ds = foldl (\<lambda>a c. 10 * a + (int c - 48)) 0 ds"

definition signed_integer :: "ustring \<Rightarrow> int option" where
  "signed_integer s =
     (let (sg, ds) = (case s of c # r \<Rightarrow> if int c = 43 then (1, r) else if int c = 45 then (-1, r) else (1, s)
                       | [] \<Rightarrow> (1, []))
      in if ds \<noteq> [] \<and> list_all is_digit ds then Some (sg * digits_value ds) else None)"

definition unsigned_decimal :: "ustring \<Rightarrow> rat option" where
  "unsigned_decimal s =
     (let ip = takeWhile is_digit s; r = dropWhile is_digit s;
          (fp, r') = (case r of c # t \<Rightarrow> if int c = 46 then (takeWhile is_digit t, dropWhile is_digit t) else ([], r)
                      | [] \<Rightarrow> ([], []));
          ex = (case r' of [] \<Rightarrow> Some 0 | c # t \<Rightarrow> if int c = 101 \<or> int c = 69 then signed_integer t else None)
      in if ip = [] \<and> fp = [] then None
         else case ex of None \<Rightarrow> None
              | Some e \<Rightarrow> Some (of_int (digits_value (ip @ fp)) * 10 powi (e - int (length fp))))"

definition string_to_number :: "ustring \<Rightarrow> jsnum" where
  "string_to_number str =
     (let t = js_trim str;
          (neg, u) = (case t of c # r \<Rightarrow> if int c = 45 then (True, r) else if int c = 43 then (False, r) else (False, t)
                      | [] \<Rightarrow> (False, []))
      in if t = [] then Num 0
         else case non_decimal t of
           Some v \<Rightarrow> (case v of None \<Rightarrow> NaN | Some i \<Rightarrow> to_num (of_int i))
         | None \<Rightarrow>
           if map int u = map int (ustr ''Infinity'') then (if neg then NegInf else PosInf)
           else case unsigned_decimal u of None \<Rightarrow> NaN
                | Some r \<Rightarrow> to_num (if neg then - r else r))"

subsection \<open>Decimal digits and the decimal exponent\<close>

lemma pow10_less_iff [simp]: "(10::rat) powi a < 10 powi b \<longleftrightarrow> a < b"
proof
  assume h: "(10::rat) powi a < 10 powi b"
  show "a < b"
  proof (rule ccontr)
    assume "\<not> a < b"
    then have "b < a \<or> b = a" by auto
    then have "(10::rat) powi b \<le> 10 powi a"
      using power_int_strict_increasing [of b a "10::rat"] by auto
    with h show False by simp
  qed
qed (rule power_int_strict_increasing, simp_all)

lemma pow10_le_iff [simp]: "(10::rat) powi a \<le> 10 powi b \<longleftrightarrow> a \<le> b"
  by (meson not_less pow10_less_iff)

lemma digits10_ne [simp]: "digits10 i \<noteq> []"
  by (subst digits10.simps) simp

lemma digits10_small: "i < 10 \<Longrightarrow> digits10 i = [i]"
  by (simp add: digits10.simps)

lemma digits10_value: "0 \<le> i \<Longrightarrow> foldl (\<lambda>a d. 10 * a + d) 0 (digits10 i) = i"
proof (induction i rule: digits10.induct)
  case (1 i)
  show ?case
  proof (cases "i < 10")
    case True then show ?thesis by (simp add: digits10_small)
  next
    case False
    with "1.IH" "1.prems" show ?thesis by (simp add: digits10.simps [of i])
  qed
qed

lemma digits10_range: "0 \<le> i \<Longrightarrow> d \<in> set (digits10 i) \<Longrightarrow> 0 \<le> d \<and> d < 10"
proof (induction i rule: digits10.induct)
  case (1 i)
  show ?case
  proof (cases "i < 10")
    case True with "1.prems" show ?thesis by (simp add: digits10_small)
  next
    case False
    with "1.IH" "1.prems" show ?thesis by (auto simp: digits10.simps [of i])
  qed
qed

lemma digits10_bounds:
  "0 \<le> i \<Longrightarrow> i < 10 ^ length (digits10 i) \<and> (1 \<le> i \<longrightarrow> 10 ^ (length (digits10 i) - 1) \<le> i)"
proof (induction i rule: digits10.induct)
  case (1 i)
  show ?case
  proof (cases "i < 10")
    case True with "1.prems" show ?thesis by (simp add: digits10_small)
  next
    case False
    define L where "L = length (digits10 (i div 10))"
    have L: "1 \<le> L" by (simp add: L_def Suc_le_eq)
    from False "1.IH" have ih: "i div 10 < 10 ^ L" "10 ^ (L - 1) \<le> i div 10"
      by (simp_all add: L_def)
    have len: "length (digits10 i) = L + 1" using False by (simp add: digits10.simps [of i] L_def)
    have "i < 10 ^ (L + 1)" using ih(1) by simp
    moreover have "10 ^ L \<le> i"
    proof -
      have "(10::int) ^ L = 10 * 10 ^ (L - 1)" using L by (simp add: power_eq_if)
      also have "\<dots> \<le> 10 * (i div 10)" using ih(2) by simp
      also have "\<dots> \<le> i" by simp
      finally show ?thesis .
    qed
    ultimately show ?thesis by (simp add: len)
  qed
qed

lemma length_digits10:
  assumes "1 \<le> k" "10 ^ (k - 1) \<le> i" "i < 10 ^ k" shows "length (digits10 i) = k"
proof -
  have "(1::int) \<le> 10 ^ (k - 1)" by simp
  then have i: "1 \<le> i" using assms(2) by linarith
  then have b: "i < 10 ^ length (digits10 i)" "10 ^ (length (digits10 i) - 1) \<le> i"
    using digits10_bounds [of i] by simp_all
  have "(10::int) ^ (k - 1) < 10 ^ length (digits10 i)" using assms(2) b(1) by linarith
  then have "k - 1 < length (digits10 i)" by (simp add: power_strict_increasing_iff)
  moreover have "(10::int) ^ (length (digits10 i) - 1) < 10 ^ k" using assms(3) b(2) by linarith
  then have "length (digits10 i) - 1 < k" by (simp add: power_strict_increasing_iff)
  ultimately show ?thesis using assms(1) by simp
qed

lemma pow10_digits10:
  fixes p :: int assumes "1 \<le> p"
  shows "(10::rat) powi (int (length (digits10 p)) - 1) \<le> of_int p \<and>
         of_int p < (10::rat) powi int (length (digits10 p))"
proof -
  define L where "L = length (digits10 p)"
  have L: "1 \<le> L" by (simp add: L_def Suc_le_eq)
  have b: "10 ^ (L - 1) \<le> p" "p < 10 ^ L" using digits10_bounds [of p] assms by (simp_all add: L_def)
  have "(10::rat) powi (int L - 1) = of_int (10 ^ (L - 1))"
    using L by (simp add: power_int_def nat_diff_distrib)
  moreover have "(10::rat) powi int L = of_int (10 ^ L)" by simp
  ultimately show ?thesis using b unfolding L_def [symmetric] by (simp only: of_int_le_iff of_int_less_iff)
qed

lemma ilog10_bounds:
  assumes "0 < x"
  shows "10 powi ilog10 x \<le> x \<and> x < 10 powi (ilog10 x + 1)"
proof -
  obtain p q where pq: "quotient_of x = (p, q)" by (cases "quotient_of x")
  then have x: "x = of_int p / of_int q" and q: "0 < q"
    by (simp_all add: quotient_of_div quotient_of_denom_pos)
  with assms have p: "0 < p" by (simp add: zero_less_divide_iff)
  define lp where "lp = int (length (digits10 p))"
  define lq where "lq = int (length (digits10 q))"
  define k where "k = lp - lq"
  have a: "10 powi (lp - 1) \<le> (of_int p::rat) \<and> of_int p < (10::rat) powi lp"
    and b: "10 powi (lq - 1) \<le> (of_int q::rat) \<and> of_int q < (10::rat) powi lq"
    using pow10_digits10 [of p] pow10_digits10 [of q] p q by (simp_all add: lp_def lq_def)
  have "(10::rat) powi (k - 1) = 10 powi (lp - 1) / 10 powi lq"
    by (simp add: k_def power_int_diff)
  also have "\<dots> < x"
    unfolding x using a b q p by (intro frac_less2) auto
  finally have lo: "(10::rat) powi (k - 1) < x" .
  have "x < 10 powi lp / 10 powi (lq - 1)"
    unfolding x using a b q p by (intro frac_less) auto
  also have "\<dots> = 10 powi (lp - (lq - 1))"
    by (rule power_int_diff [symmetric]) simp
  also have "lp - (lq - 1) = k + 1"
    by (simp add: k_def)
  finally have hi: "x < 10 powi (k + 1)" .
  from lo hi show ?thesis
    by (auto simp: ilog10_def pq lp_def [symmetric] lq_def [symmetric] k_def [symmetric] Let_def)
qed

subsection \<open>The choice of the digits\<close>

lemma pow10_nat: "(10::rat) powi int k = of_int (10 ^ k)"
  by simp

lemma pow10_pred: "1 \<le> k \<Longrightarrow> (10::rat) powi (int k - 1) = of_int (10 ^ (k - 1))"
  by (simp add: power_int_def nat_diff_distrib)

lemma nearest_digits_Some:
  "nearest_digits x q = Some b \<Longrightarrow> fl (of_int b * q) = x \<and> (b = \<lfloor>x / q\<rfloor> \<or> b = \<lceil>x / q\<rceil>)"
  by (auto simp: nearest_digits_def Let_def split: if_splits)

lemma nearest_digits_exact:
  "x = of_int m * q \<Longrightarrow> q \<noteq> 0 \<Longrightarrow> fl x = x \<Longrightarrow> nearest_digits x q = Some m"
  by (simp add: nearest_digits_def Let_def)

lemma pick_digits_Some:
  assumes "pick_digits x n k = Some (n', s)" "1 \<le> k" "10 powi (n - 1) \<le> x" "x < 10 powi n"
  shows "fl (of_int s * 10 powi (n' - int k)) = x \<and> 10 ^ (k - 1) \<le> s \<and> s < 10 ^ k"
proof -
  define q where "q = (10::rat) powi (n - int k)"
  have q: "0 < q" by (simp add: q_def)
  obtain b where b: "nearest_digits x q = Some b"
    and ns: "(n', s) = (if b = 10 ^ k then (n + 1, 10 ^ (k - 1)) else (n, b))"
    using assms(1) by (auto simp: pick_digits_def q_def split: option.splits if_splits)
  from nearest_digits_Some [OF b] have fb: "fl (of_int b * q) = x"
    and bb: "b = \<lfloor>x / q\<rfloor> \<or> b = \<lceil>x / q\<rceil>" by auto
  have "(10::rat) powi (int k - 1) = 10 powi (n - 1) / q" by (simp add: q_def power_int_diff)
  also have "\<dots> \<le> x / q" using assms(3) q by (simp add: divide_right_mono)
  finally have lo: "of_int (10 ^ (k - 1)) \<le> x / q" using pow10_pred [OF assms(2)] by simp
  have "x / q < 10 powi n / q" using assms(4) q by (simp add: divide_strict_right_mono)
  also have "10 powi n / q = (10::rat) powi int k" by (simp add: q_def power_int_diff)
  finally have hi: "x / q < of_int (10 ^ k)" by simp
  have f1: "10 ^ (k - 1) \<le> \<lfloor>x / q\<rfloor>" using lo by (simp only: le_floor_iff)
  have c1: "\<lceil>x / q\<rceil> \<le> 10 ^ k" using hi by (simp only: ceiling_le_iff less_imp_le)
  have fc: "\<lfloor>x / q\<rfloor> \<le> \<lceil>x / q\<rceil>" by (rule floor_le_ceiling)
  have b_lo: "10 ^ (k - 1) \<le> b" and b_hi: "b \<le> 10 ^ k"
    using bb f1 c1 fc by (elim disjE; linarith)+
  show ?thesis
  proof (cases "b = 10 ^ k")
    case True
    have "(10::rat) powi (n + 1 - int k) = 10 powi (n - int k + 1)" by (simp add: algebra_simps)
    then have "(10::rat) powi (n + 1 - int k) = 10 * q" by (simp add: q_def power_int_add)
    moreover have "(10::int) ^ k = 10 * 10 ^ (k - 1)" using assms(2) by (simp add: power_eq_if)
    ultimately have "of_int (10 ^ (k - 1)) * (10::rat) powi (n + 1 - int k) = of_int b * q"
      using True by simp
    moreover have "k - 1 < k" using assms(2) by simp
    ultimately show ?thesis using True ns fb by (simp add: power_strict_increasing_iff)
  next
    case False
    with ns fb b_lo b_hi show ?thesis by (simp add: q_def)
  qed
qed

lemma shortest_digits_Some:
  "shortest_digits x n k f = Some (n', k', s) \<Longrightarrow> k \<le> k' \<and> pick_digits x n k' = Some (n', s)"
  by (induction x n k f rule: shortest_digits.induct) (auto split: option.splits)

lemma shortest_digits_found:
  "pick_digits x n (k + j) \<noteq> None \<Longrightarrow> j < f \<Longrightarrow> shortest_digits x n k f \<noteq> None"
proof (induction f arbitrary: k j)
  case 0 then show ?case by simp
next
  case (Suc f)
  show ?case
  proof (cases j)
    case 0 with Suc.prems show ?thesis by (auto split: option.splits)
  next
    case (Suc j')
    with Suc.prems Suc.IH [of "Suc k" j'] show ?thesis by (auto split: option.splits)
  qed
qed

subsection \<open>The search succeeds on every double\<close>

lemma fl_uminus: "fl (- x) = - fl x"
  by (simp add: fl_def)

lemma fl_grid:
  assumes "binary64_grid x" shows "fl x = x"
proof (cases "0 < x")
  case True
  with round_pos_nearest [OF True assms] show ?thesis by (simp add: fl_def)
next
  case False
  show ?thesis
  proof (cases "x = 0")
    case True then show ?thesis by (simp add: fl_def)
  next
    case nz: False
    with False have neg: "0 < - x" by simp
    from round_pos_nearest [OF neg binary64_grid_uminus [OF assms]] have "round_pos (- x) = - x" by simp
    with False nz show ?thesis by (simp add: fl_def)
  qed
qed

lemma fl_fixed_grid: "0 < x \<Longrightarrow> fl x = x \<Longrightarrow> binary64_grid x"
  using round_pos_grid [of x] by (simp add: fl_def)

lemma grid_pow10_multiple:
  assumes "- int N \<le> e"
  shows "of_int m * (2::rat) powi e = of_int (m * 2 ^ nat (e + int N) * 5 ^ N) * 10 powi (- int N)"
proof -
  have "e = - int N + int (nat (e + int N))" using assms by simp
  then have "(2::rat) powi e = of_int (2 ^ nat (e + int N)) * 2 powi (- int N)"
    by (metis pow2_split)
  moreover have "(10::rat) powi (- int N) = 2 powi (- int N) / 5 ^ N"
    by (simp add: power_int_minus power_mult_distrib [symmetric] field_simps)
  ultimately show ?thesis by simp
qed

lemma pow10_lt_pow2: "0 < N \<Longrightarrow> (10::rat) powi (- int N) < 2 powi (- int N)"
  by (simp add: power_int_minus power_strict_mono)

lemma grid_pos_ge:
  assumes "binary64_grid x" "0 < x" shows "(10::rat) powi (-1074) < x"
proof -
  obtain m e where d: "x = of_int m * 2 powi e" "-1074 \<le> e"
    using assms(1) unfolding binary64_grid_def by blast
  have "0 < of_int m * (2::rat) powi e" using assms(2) d(1) by simp
  then have "0 < (of_int m::rat)" by (rule zero_less_mult_pos2) simp
  then have "(2::rat) powi e \<le> x" using d(1) by simp
  moreover have "(2::rat) powi (-1074) \<le> 2 powi e" using d(2) by (simp only: pow2_le_iff)
  moreover have "(10::rat) powi (- int 1074) < 2 powi (- int 1074)" by (rule pow10_lt_pow2) simp
  then have "(10::rat) powi (-1074) < 2 powi (-1074)" by (simp only: of_nat_numeral)
  ultimately show ?thesis by linarith
qed

lemma grid_pow10:
  assumes "binary64_grid x" shows "\<exists>M. x = of_int M * 10 powi (-1074)"
proof -
  obtain m e where d: "x = of_int m * 2 powi e" "-1074 \<le> e"
    using assms unfolding binary64_grid_def by blast
  have "- int 1074 \<le> e" using d(2) by simp
  from grid_pow10_multiple [OF this, of m] d(1)
  have "x = of_int (m * 2 ^ nat (e + int 1074) * 5 ^ 1074) * 10 powi (- int 1074)" by (simp only:)
  then have "x = of_int (m * 2 ^ nat (e + int 1074) * 5 ^ 1074) * 10 powi (-1074)"
    by (simp only: of_nat_numeral)
  then show ?thesis by blast
qed

lemma pos_digits:
  assumes "binary64_grid x" "0 < x"
  obtains n k s where
    "shortest_digits x (ilog10 x + 1) 1 (nat (ilog10 x + 1075)) = Some (n, k, s)"
    "1 \<le> k" "fl (of_int s * 10 powi (n - int k)) = x" "10 ^ (k - 1) \<le> s" "s < 10 ^ k"
proof -
  note b = ilog10_bounds [OF assms(2)]
  have "(10::rat) powi (-1074) < 10 powi (ilog10 x + 1)"
    using order.strict_trans [OF grid_pos_ge [OF assms] conjunct2 [OF b]] .
  then have "-1074 < ilog10 x + 1" by (simp only: pow10_less_iff)
  then have K1: "1 \<le> ilog10 x + 1075" by simp
  define K where "K = nat (ilog10 x + 1075)"
  have eqK: "ilog10 x + 1 - int K = -1074" and K: "1 + (K - 1) = K" "K - 1 < K"
    using K1 by (simp_all add: K_def)
  obtain M where M: "x = of_int M * 10 powi (-1074)" using grid_pow10 [OF assms(1)] by blast
  have "nearest_digits x (10 powi (ilog10 x + 1 - int K)) = Some M" unfolding eqK
    by (rule nearest_digits_exact [OF M _ fl_grid [OF assms(1)]]) (rule power_int_not_zero, simp)
  then have "pick_digits x (ilog10 x + 1) K \<noteq> None"
    by (simp add: pick_digits_def)
  then have "pick_digits x (ilog10 x + 1) (1 + (K - 1)) \<noteq> None" unfolding K(1) .
  from shortest_digits_found [OF this K(2)]
  obtain n k s where r: "shortest_digits x (ilog10 x + 1) 1 K = Some (n, k, s)" by auto
  from shortest_digits_Some [OF r] have k: "1 \<le> k" and p: "pick_digits x (ilog10 x + 1) k = Some (n, s)"
    by auto
  have "10 powi (ilog10 x + 1 - 1) \<le> x" "x < 10 powi (ilog10 x + 1)" using b by simp_all
  from pick_digits_Some [OF p k this]
  have "fl (of_int s * 10 powi (n - int k)) = x \<and> 10 ^ (k - 1) \<le> s \<and> s < 10 ^ k" .
  with r k show ?thesis using that unfolding K_def by blast
qed

subsection \<open>Reading the literals back\<close>

lemma is_digit_code: "0 \<le> d \<Longrightarrow> d < 10 \<Longrightarrow> is_digit (nat (48 + d))"
  by (simp add: is_digit_def)

lemma not_digit_punct [simp]: "\<not> is_digit 43" "\<not> is_digit 45" "\<not> is_digit 46" "\<not> is_digit 101"
  by (simp_all add: is_digit_def)

lemma decimal_digits: "0 \<le> s \<Longrightarrow> \<forall>c\<in>set (decimal s). is_digit c"
  by (auto simp: decimal_def intro: is_digit_code dest: digits10_range)

lemma decimal_ne [simp]: "decimal s \<noteq> []"
  by (simp add: decimal_def)

lemma length_decimal: "length (decimal s) = length (digits10 s)"
  by (simp add: decimal_def)

lemma foldl_digits_shift:
  "foldl (\<lambda>a c. 10 * a + (int c - 48)) a0 ys =
     a0 * 10 ^ length ys + foldl (\<lambda>a c. 10 * a + (int c - 48)) 0 ys"
proof (induction ys arbitrary: a0)
  case Nil then show ?case by simp
next
  case (Cons y ys)
  let ?f = "\<lambda>a c. 10 * a + (int c - 48)"
  have "foldl ?f a0 (y # ys) = (10 * a0 + (int y - 48)) * 10 ^ length ys + foldl ?f 0 ys"
    using Cons.IH [of "10 * a0 + (int y - 48)"] by simp
  moreover have "foldl ?f 0 (y # ys) = (int y - 48) * 10 ^ length ys + foldl ?f 0 ys"
    using Cons.IH [of "int y - 48"] by simp
  ultimately show ?case by (simp add: algebra_simps)
qed

lemma digits_value_append:
  "digits_value (xs @ ys) = digits_value xs * 10 ^ length ys + digits_value ys"
  unfolding digits_value_def foldl_append by (rule foldl_digits_shift)

lemma digits_value_zeros [simp]: "digits_value (replicate m 48) = 0"
  by (induction m) (simp_all add: digits_value_def)

lemma digits_value_decimal: "0 \<le> s \<Longrightarrow> digits_value (decimal s) = s"
proof -
  assume s: "0 \<le> s"
  have "digits_value (decimal s) = foldl (\<lambda>a d. 10 * a + d) 0 (digits10 s)"
    unfolding digits_value_def decimal_def foldl_map
    by (rule foldl_cong) (auto dest: digits10_range [OF s])
  with digits10_value [OF s] show ?thesis by simp
qed

lemma signed_integer_exp: "signed_integer ((if e < 0 then 45 else 43) # decimal \<bar>e\<bar>) = Some e"
proof -
  have "\<forall>c\<in>set (decimal \<bar>e\<bar>). is_digit c" by (rule decimal_digits) simp
  then show ?thesis
    by (simp add: signed_integer_def digits_value_decimal list_all_iff)
qed

lemma unsigned_digits:
  "\<forall>c\<in>set ds. is_digit c \<Longrightarrow> ds \<noteq> [] \<Longrightarrow> unsigned_decimal ds = Some (of_int (digits_value ds))"
  by (simp add: unsigned_decimal_def Let_def takeWhile_eq_all_conv [THEN iffD2] dropWhile_eq_Nil_conv [THEN iffD2])

lemma unsigned_point:
  assumes "\<forall>c\<in>set ip. is_digit c" "\<forall>c\<in>set fp. is_digit c" "ip \<noteq> []"
  shows "unsigned_decimal (ip @ 46 # fp) =
           Some (of_int (digits_value (ip @ fp)) * 10 powi (- int (length fp)))"
  using assms by (simp add: unsigned_decimal_def Let_def takeWhile_eq_all_conv [THEN iffD2] dropWhile_eq_Nil_conv [THEN iffD2])

lemma unsigned_exp:
  assumes "\<forall>c\<in>set ds. is_digit c" "ds \<noteq> []" "signed_integer es = Some e"
  shows "unsigned_decimal (ds @ 101 # es) = Some (of_int (digits_value ds) * 10 powi e)"
  using assms by (simp add: unsigned_decimal_def Let_def takeWhile_eq_all_conv [THEN iffD2] dropWhile_eq_Nil_conv [THEN iffD2])

lemma unsigned_point_exp:
  assumes "\<forall>c\<in>set ip. is_digit c" "\<forall>c\<in>set fp. is_digit c" "ip \<noteq> []" "signed_integer es = Some e"
  shows "unsigned_decimal (ip @ 46 # fp @ 101 # es) =
           Some (of_int (digits_value (ip @ fp)) * 10 powi (e - int (length fp)))"
  using assms by (simp add: unsigned_decimal_def Let_def takeWhile_eq_all_conv [THEN iffD2] dropWhile_eq_Nil_conv [THEN iffD2])

subsection \<open>The value of each format\<close>

lemma format_int:
  assumes "\<forall>c\<in>set ds. is_digit c" "ds \<noteq> []" "digits_value ds = s" "int k \<le> n"
  shows "unsigned_decimal (ds @ replicate (nat n - k) 48) = Some (of_int s * 10 powi (n - int k))"
proof -
  have e: "n - int k = int (nat n - k)" using assms(4) by linarith
  have "(10::rat) powi (n - int k) = of_int (10 ^ (nat n - k))" unfolding e by simp
  moreover have "\<forall>c\<in>set (ds @ replicate (nat n - k) 48). is_digit c" using assms(1) by (auto simp: is_digit_def)
  ultimately show ?thesis using assms(2,3) by (simp add: unsigned_digits digits_value_append)
qed

lemma format_frac:
  assumes "\<forall>c\<in>set ds. is_digit c" "digits_value ds = s" "length ds = k" "0 < n" "n < int k"
  shows "unsigned_decimal (take (nat n) ds @ 46 # drop (nat n) ds) = Some (of_int s * 10 powi (n - int k))"
proof -
  have D1: "\<forall>c\<in>set (take (nat n) ds). is_digit c" "\<forall>c\<in>set (drop (nat n) ds). is_digit c"
    using assms(1) by (auto dest: in_set_takeD in_set_dropD)
  have "0 < length ds" using assms(3-5) by linarith
  then have "take (nat n) ds \<noteq> []" using assms(4) by auto
  from unsigned_point [OF D1 this]
  have "unsigned_decimal (take (nat n) ds @ 46 # drop (nat n) ds) =
          Some (of_int s * 10 powi (- int (k - nat n)))" by (simp add: assms(2,3))
  moreover have "- int (k - nat n) = n - int k" using assms(4,5) by linarith
  ultimately show ?thesis by (simp only:)
qed

lemma format_small:
  assumes "\<forall>c\<in>set ds. is_digit c" "digits_value ds = s" "length ds = k" "n \<le> 0"
  shows "unsigned_decimal (48 # 46 # replicate (nat (- n)) 48 @ ds) = Some (of_int s * 10 powi (n - int k))"
proof -
  have D1: "\<forall>c\<in>set [48::nat]. is_digit c" "\<forall>c\<in>set (replicate (nat (- n)) 48 @ ds). is_digit c"
    using assms(1) by (auto simp: is_digit_def)
  have "digits_value ([48] @ replicate (nat (- n)) 48 @ ds) = s"
    using assms(2) by (simp only: digits_value_append digits_value_zeros) (simp add: digits_value_def)
  with unsigned_point [OF D1] have
    "unsigned_decimal ([48] @ 46 # replicate (nat (- n)) 48 @ ds) =
       Some (of_int s * 10 powi (- int (nat (- n) + k)))"
    by (simp only: assms(3) length_append length_replicate) simp
  moreover have "- int (nat (- n) + k) = n - int k" using assms(4) by linarith
  ultimately show ?thesis by simp
qed

lemma format_exp1:
  assumes "\<forall>c\<in>set ds. is_digit c" "ds \<noteq> []" "digits_value ds = s"
  shows "unsigned_decimal (ds @ 101 # (if n - 1 < 0 then 45 else 43) # decimal \<bar>n - 1\<bar>) =
           Some (of_int s * 10 powi (n - 1))"
  using unsigned_exp [OF assms(1,2) signed_integer_exp [of "n - 1"]] assms(3) by simp

lemma format_expk:
  assumes "\<forall>c\<in>set ds. is_digit c" "ds \<noteq> []" "digits_value ds = s" "length ds = k"
  shows "unsigned_decimal (hd ds # 46 # tl ds @ 101 # (if n - 1 < 0 then 45 else 43) # decimal \<bar>n - 1\<bar>) =
           Some (of_int s * 10 powi (n - int k))"
proof -
  have D1: "\<forall>c\<in>set [hd ds]. is_digit c" "\<forall>c\<in>set (tl ds). is_digit c"
    using assms(1,2) by (auto dest: list.set_sel)
  from unsigned_point_exp [OF D1 _ signed_integer_exp [of "n - 1"]]
  have "unsigned_decimal ([hd ds] @ 46 # tl ds @ 101 # (if n - 1 < 0 then 45 else 43) # decimal \<bar>n - 1\<bar>) =
          Some (of_int (digits_value ([hd ds] @ tl ds)) * 10 powi (n - 1 - int (length (tl ds))))"
    by simp
  moreover have "[hd ds] @ tl ds = ds" using assms(2) by simp
  moreover have "n - 1 - int (length (tl ds)) = n - int k" using assms(2,4) by (cases ds) simp_all
  ultimately show ?thesis by (simp only: assms(3) append_Cons append_Nil)
qed

lemma format_decimal_value:
  assumes k: "1 \<le> k" and s: "10 ^ (k - 1) \<le> s" "s < 10 ^ k"
  shows "unsigned_decimal (format_decimal n k s) = Some (of_int s * 10 powi (n - int k))"
proof -
  define ds where "ds = decimal s"
  have s0: "0 \<le> s" using s(1) by (meson order.trans zero_le_power zero_le_numeral)
  have D: "\<forall>c\<in>set ds. is_digit c" using decimal_digits [OF s0] by (simp add: ds_def)
  have L: "length ds = k" using length_digits10 [OF k s] by (simp add: ds_def length_decimal)
  have V: "digits_value ds = s" using digits_value_decimal [OF s0] by (simp add: ds_def)
  have ne: "ds \<noteq> []" by (simp add: ds_def)
  note f = format_int [OF D ne V] format_frac [OF D V L] format_small [OF D V L]
    format_exp1 [OF D ne V] format_expk [OF D ne V L]
  show ?thesis
    unfolding format_decimal_def Let_def ds_def [symmetric]
    using k f by (auto simp del: One_nat_def)
qed

subsection \<open>The printed string is a literal of its value\<close>

lemma dropWhile_none: "\<forall>c\<in>set t. \<not> P c \<Longrightarrow> dropWhile P t = t"
  by (cases t) auto

lemma js_trim_id: "\<forall>c\<in>set t. \<not> js_whitespace c \<Longrightarrow> js_trim t = t"
  by (simp add: js_trim_def dropWhile_none)

lemma literal_not_ws: "c \<in> {c. is_digit c} \<union> {43, 45, 46, 101} \<Longrightarrow> \<not> js_whitespace c"
  by (auto simp: is_digit_def js_whitespace_def)

lemma format_chars:
  assumes "0 \<le> s" shows "set (format_decimal n k s) \<subseteq> {c. is_digit c} \<union> {43, 45, 46, 101}"
proof -
  define L where "L = {c. is_digit c} \<union> {43::nat, 45, 46, 101}"
  have d: "set (decimal s) \<subseteq> L" "set (decimal \<bar>n - 1\<bar>) \<subseteq> L"
    using decimal_digits [OF assms] decimal_digits [of "\<bar>n - 1\<bar>"] by (auto simp: L_def)
  then have "set (take m (decimal s)) \<subseteq> L" "set (drop m (decimal s)) \<subseteq> L" for m
    by (auto dest: in_set_takeD in_set_dropD)
  moreover have "set (tl (decimal s)) \<subseteq> L" "hd (decimal s) \<in> L"
    using d(1) by (cases "decimal s"; simp)+
  moreover have "48 \<in> L" "43 \<in> L" "45 \<in> L" "46 \<in> L" "101 \<in> L" by (simp_all add: L_def is_digit_def)
  moreover have e1: "1 \<le> n \<Longrightarrow> set (decimal (n - 1)) \<subseteq> L"
    and e2: "n \<le> 0 \<Longrightarrow> set (decimal (1 - n)) \<subseteq> L"
    using decimal_digits [of "n - 1"] decimal_digits [of "1 - n"] by (auto simp: L_def)
  ultimately have "set (format_decimal n k s) \<subseteq> L"
    using d by (simp add: format_decimal_def Let_def set_replicate_conv_if)
  then show ?thesis by (simp add: L_def)
qed

lemma format_head:
  assumes "0 \<le> s" shows "\<exists>c r. format_decimal n k s = c # r \<and> is_digit c"
proof -
  obtain d ds where d: "decimal s = d # ds" by (cases "decimal s") auto
  have "is_digit d" using decimal_digits [OF assms] d by simp
  moreover have "is_digit 48" by (simp add: is_digit_def)
  ultimately show ?thesis by (auto simp: format_decimal_def Let_def d take_Cons')
qed

lemma to_num_exact: "fl v = x \<Longrightarrow> \<bar>x\<bar> < overflow_bound \<Longrightarrow> to_num v = Num x"
  by (auto simp: to_num_def Let_def abs_less_iff)

lemma string_to_number_literal:
  assumes "set t \<subseteq> {c. is_digit c} \<union> {43, 45, 46, 101}" "t = c # r" "is_digit c"
    "unsigned_decimal t = Some v"
  shows "string_to_number t = to_num v \<and> string_to_number (45 # t) = to_num (- v)"
proof -
  have ws: "\<forall>c\<in>set t. \<not> js_whitespace c" using assms(1) literal_not_ws by blast
  then have trim: "js_trim t = t" "js_trim (45 # t) = 45 # t"
    by (simp_all add: js_trim_id js_whitespace_def)
  have nd: "non_decimal t = None"
  proof (cases r)
    case (Cons x ds)
    then have "x \<in> {c. is_digit c} \<union> {43, 45, 46, 101}" using assms(1,2) by auto
    then show ?thesis using assms(2) Cons by (auto simp: non_decimal_def is_digit_def)
  qed (simp add: non_decimal_def assms(2))
  have nd': "non_decimal (45 # t) = None" using assms(2) by (simp add: non_decimal_def)
  have c: "int c \<noteq> 45" "int c \<noteq> 43" "int c \<noteq> 73" using assms(3) by (simp_all add: is_digit_def)
  show ?thesis
    using assms(2,4) trim nd nd' c by (simp add: string_to_number_def Let_def)
qed

lemma pos_to_string_literal:
  assumes "binary64_grid x" "0 < x"
  obtains v where "unsigned_decimal (pos_to_string x) = Some v" "fl v = x"
    "set (pos_to_string x) \<subseteq> {c. is_digit c} \<union> {43, 45, 46, 101}"
    "\<exists>c r. pos_to_string x = c # r \<and> is_digit c"
proof -
  obtain n k s where r: "shortest_digits x (ilog10 x + 1) 1 (nat (ilog10 x + 1075)) = Some (n, k, s)"
    and k: "1 \<le> k" and f: "fl (of_int s * 10 powi (n - int k)) = x"
    and s: "10 ^ (k - 1) \<le> s" "s < 10 ^ k"
    using pos_digits [OF assms] by blast
  have p: "pos_to_string x = format_decimal n k s" unfolding pos_to_string_def r by simp
  have s0: "0 \<le> s" using s(1) by (meson order.trans zero_le_power zero_le_numeral)
  show ?thesis
    using that [OF _ f] format_decimal_value [OF k s] format_chars [OF s0] format_head [OF s0]
    by (simp add: p)
qed

subsection \<open>The digit count is the least\<close>

text \<open>A digit count the search skipped has no candidate: neither multiple of
  the quantum around \<open>x\<close> rounds to \<open>x\<close>, and every other \<open>k\<close>-digit value is
  farther from \<open>x\<close> on the same side, or below \<open>10 powi (n - 1)\<close>, so it
  would round to \<open>x\<close> only if one of the two did (\<open>fl_squeeze\<close>).\<close>

lemma shortest_digits_skipped:
  "shortest_digits x n k f = Some (n', k', s) \<Longrightarrow> k \<le> j \<Longrightarrow> j < k' \<Longrightarrow> pick_digits x n j = None"
proof (induction f arbitrary: k)
  case 0 then show ?case by simp
next
  case (Suc f)
  show ?case
  proof (cases "pick_digits x n k")
    case None
    show ?thesis
    proof (cases "j = k")
      case True with None show ?thesis by simp
    next
      case False
      with Suc.prems None show ?thesis by (intro Suc.IH [of "Suc k"]) simp_all
    qed
  next
    case (Some p) with Suc.prems show ?thesis by (cases p) simp
  qed
qed

lemma nearest_digits_None:
  "nearest_digits x q = None \<Longrightarrow>
   fl (of_int \<lfloor>x / q\<rfloor> * q) \<noteq> x \<and> fl (of_int \<lceil>x / q\<rceil> * q) \<noteq> x"
  by (auto simp: nearest_digits_def Let_def split: if_splits)

lemma fl_squeeze:
  assumes "fl x = x" "fl v = x"
  shows "v \<le> w \<Longrightarrow> w \<le> x \<Longrightarrow> fl w = x" and "x \<le> w \<Longrightarrow> w \<le> v \<Longrightarrow> fl w = x"
  using fl_mono [of v w] fl_mono [of w x] fl_mono [of x w] fl_mono [of w v] assms by simp_all

lemma no_shorter_digits:
  assumes fx: "fl x = x" and b: "10 powi (n - 1) \<le> x" "x < 10 powi n" and k: "1 \<le> k"
    and none: "nearest_digits x (10 powi (n - int k)) = None"
    and s: "10 ^ (k - 1) \<le> s" "s < 10 ^ k"
  shows "fl (of_int s * 10 powi (n' - int k)) \<noteq> x"
proof
  assume fv: "fl (of_int s * 10 powi (n' - int k)) = x"
  define q where "q = (10::rat) powi (n - int k)"
  define v where "v = of_int s * (10::rat) powi (n' - int k)"
  have q: "0 < q" by (simp add: q_def)
  note nd = nearest_digits_None [OF none [folded q_def]]
  note sq = fl_squeeze [OF fx fv [folded v_def]]
  have lo_le: "of_int \<lfloor>x / q\<rfloor> * q \<le> x" using q by (simp add: pos_le_divide_eq [symmetric])
  have hi_ge: "x \<le> of_int \<lceil>x / q\<rceil> * q" using q by (simp add: pos_divide_le_eq [symmetric])
  have "(10::rat) powi (int k - 1) = 10 powi (n - 1) / q" by (simp add: q_def power_int_diff)
  also have "\<dots> \<le> x / q" using b(1) q by (simp add: divide_right_mono)
  finally have "of_int (10 ^ (k - 1)) \<le> x / q" using pow10_pred [OF k] by simp
  then have "10 ^ (k - 1) \<le> \<lfloor>x / q\<rfloor>" by (simp only: le_floor_iff)
  then have "of_int (10 ^ (k - 1)) * q \<le> of_int \<lfloor>x / q\<rfloor> * q" using q
    by (simp only: mult_le_cancel_right_pos of_int_le_iff)
  moreover have "of_int (10 ^ (k - 1)) * q = (10::rat) powi (n - 1)"
  proof -
    have "(10::rat) powi (int k - 1) * q = 10 powi (int k - 1 + (n - int k))"
      unfolding q_def by (rule power_int_add [symmetric]) simp
    also have "int k - 1 + (n - int k) = n - 1" by simp
    finally show ?thesis using pow10_pred [OF k] by simp
  qed
  ultimately have lo_big: "10 powi (n - 1) \<le> of_int \<lfloor>x / q\<rfloor> * q" by simp
  show False
  proof (cases "n \<le> n'")
    case True
    define m where "m = s * 10 ^ nat (n' - n)"
    have "(10::rat) powi (n' - int k) = of_int (10 ^ nat (n' - n)) * q"
    proof -
      have e: "n' - int k = int (nat (n' - n)) + (n - int k)" using True by simp
      have a: "(10::rat) powi (int (nat (n' - n)) + (n - int k)) =
              10 powi int (nat (n' - n)) * 10 powi (n - int k)"
        by (rule power_int_add) simp
      have p: "(10::rat) powi int (nat (n' - n)) = of_int (10 ^ nat (n' - n))"
        by (simp only: power_int_of_nat) simp
      show ?thesis by (simp only: q_def e a p)
    qed
    then have vm: "v = of_int m * q" by (simp add: v_def m_def)
    show False
    proof (cases "v \<le> x")
      case True
      then have "of_int m \<le> x / q" using q vm by (simp add: pos_le_divide_eq)
      then have "m \<le> \<lfloor>x / q\<rfloor>" by (simp only: le_floor_iff)
      then have "v \<le> of_int \<lfloor>x / q\<rfloor> * q" using q vm by simp
      with lo_le sq(1) nd show False by blast
    next
      case False
      then have "x / q \<le> of_int m" using q vm by (simp add: pos_divide_le_eq)
      then have "\<lceil>x / q\<rceil> \<le> m" by (simp only: ceiling_le_iff)
      then have "of_int \<lceil>x / q\<rceil> * q \<le> v" using q vm by simp
      with hi_ge sq(2) nd show False by blast
    qed
  next
    case False
    have "v < of_int (10 ^ k) * 10 powi (n' - int k)"
      using s(2) by (simp add: v_def)
    also have "of_int (10 ^ k) * (10::rat) powi (n' - int k) = 10 powi n'"
    proof -
      have "(10::rat) powi int k * 10 powi (n' - int k) = 10 powi (int k + (n' - int k))"
        by (rule power_int_add [symmetric]) simp
      then show ?thesis by simp
    qed
    also have "(10::rat) powi n' \<le> 10 powi (n - 1)" using False by simp
    finally have "v \<le> of_int \<lfloor>x / q\<rfloor> * q" using lo_big by simp
    with lo_le sq(1) nd show False by blast
  qed
qed

text \<open>C14. Refinement of step 5 of Number::toString: the digits the printer
  chooses for a positive double \<open>x\<close> are \<open>k\<close> significant digits \<open>s\<close>
  (\<open>10^(k-1) \<le> s < 10^k\<close>) whose value rounds to \<open>x\<close>, and no value with fewer
  significant digits, at any exponent, rounds to \<open>x\<close>: \<open>k\<close> is as small as
  possible, as the standard requires.\<close>

theorem shortest_digits_least:
  assumes "binary64_grid x" "0 < x"
  shows "\<exists>n k s. shortest_digits x (ilog10 x + 1) 1 (nat (ilog10 x + 1075)) = Some (n, k, s) \<and>
           1 \<le> k \<and> 10 ^ (k - 1) \<le> s \<and> s < 10 ^ k \<and> fl (of_int s * 10 powi (n - int k)) = x \<and>
           (\<forall>k' s' n'. 1 \<le> k' \<and> k' < k \<and> 10 ^ (k' - 1) \<le> s' \<and> s' < 10 ^ k' \<longrightarrow>
              fl (of_int s' * 10 powi (n' - int k')) \<noteq> x)"
proof -
  obtain n k s where r: "shortest_digits x (ilog10 x + 1) 1 (nat (ilog10 x + 1075)) = Some (n, k, s)"
    and k: "1 \<le> k" and f: "fl (of_int s * 10 powi (n - int k)) = x"
    and s: "10 ^ (k - 1) \<le> s" "s < 10 ^ k"
    using pos_digits [OF assms] by blast
  note b = ilog10_bounds [OF assms(2)]
  have "fl (of_int s' * 10 powi (n' - int k')) \<noteq> x"
    if "1 \<le> k'" "k' < k" "10 ^ (k' - 1) \<le> s'" "s' < 10 ^ k'" for k' s' n'
  proof -
    have "pick_digits x (ilog10 x + 1) k' = None"
      by (rule shortest_digits_skipped [OF r]) (use that in simp_all)
    then have "nearest_digits x (10 powi (ilog10 x + 1 - int k')) = None"
      by (simp add: pick_digits_def split: option.splits if_splits)
    moreover have "10 powi (ilog10 x + 1 - 1) \<le> x" "x < 10 powi (ilog10 x + 1)" using b by simp_all
    ultimately show ?thesis
      using no_shorter_digits [OF fl_grid [OF assms(1)] _ _ that(1) _ that(3,4)] by blast
  qed
  with r k f s show ?thesis by blast
qed

theorem shortest_digits_least_witness:
  "binary64_grid (1 / 4) \<and> 0 < (1 / 4 :: rat) \<and>
   (\<exists>n k s. shortest_digits (1 / 4) (ilog10 (1 / 4) + 1) 1 (nat (ilog10 (1 / 4) + 1075)) = Some (n, k, s) \<and>
      1 \<le> k \<and> 10 ^ (k - 1) \<le> s \<and> s < 10 ^ k \<and> fl (of_int s * 10 powi (n - int k)) = 1 / 4 \<and>
      (\<forall>k' s' n'. 1 \<le> k' \<and> k' < k \<and> 10 ^ (k' - 1) \<le> s' \<and> s' < 10 ^ k' \<longrightarrow>
         fl (of_int s' * 10 powi (n' - int k')) \<noteq> 1 / 4))"
proof -
  have "fl (1 / 4) = (1 / 4 :: rat)" by code_simp
  then have g: "binary64_grid (1 / 4)" by (rule fl_fixed_grid [rotated]) simp
  have p: "0 < (1 / 4 :: rat)" by simp
  from g p shortest_digits_least [OF g p] show ?thesis by blast
qed

subsection \<open>Integers print as their digits\<close>

text \<open>Below \<open>2^53\<close> an integer is its own shortest representation: the search
  stops at a digit count no larger than the integer's, so the exponent is
  not negative and the printed value is an integer, which can only be the
  integer itself (\<open>fl_int_eq\<close>).  This is the case of line 10, which prints
  the integer percentage.\<close>

lemma ilog10_unique:
  assumes "10 powi k \<le> x" "x < 10 powi (k + 1)"
  shows "ilog10 x = k"
proof -
  have x: "0 < x" using assms(1) by (rule order.strict_trans2 [rotated]) simp
  from ilog10_bounds [OF x] have a: "10 powi ilog10 x \<le> x" "x < 10 powi (ilog10 x + 1)" by auto
  have "(10::rat) powi k < 10 powi (ilog10 x + 1)" using assms(1) a(2) by linarith
  then have "k < ilog10 x + 1" by simp
  moreover have "(10::rat) powi ilog10 x < 10 powi (k + 1)" using assms(2) a(1) by linarith
  then have "ilog10 x < k + 1" by simp
  ultimately show ?thesis by simp
qed

lemma digits10_shift: "1 \<le> s \<Longrightarrow> digits10 (s * 10 ^ j) = digits10 s @ replicate j 0"
proof (induction j)
  case 0 then show ?case by simp
next
  case (Suc j)
  have "1 \<le> s * 10 ^ j" using Suc.prems by (simp add: order.trans [OF _ mult_right_mono [of 1 s]])
  then have "digits10 (s * 10 ^ j * 10) = digits10 (s * 10 ^ j) @ [0]"
    by (subst digits10.simps) simp
  with Suc show ?case by (simp add: mult.assoc [symmetric] mult.commute [of 10] replicate_append_same)
qed

lemma decimal_shift: "1 \<le> s \<Longrightarrow> decimal (s * 10 ^ j) = decimal s @ replicate j 48"
  by (simp add: decimal_def digits10_shift)

lemma shortest_digits_le:
  "shortest_digits x n k f = Some (n', k', s) \<Longrightarrow> pick_digits x n (k + j) \<noteq> None \<Longrightarrow> k' \<le> k + j"
proof (induction f arbitrary: k j)
  case 0 then show ?case by simp
next
  case (Suc f)
  show ?case
  proof (cases j)
    case 0 with Suc.prems show ?thesis by (auto split: option.splits)
  next
    case (Suc j')
    with Suc.prems Suc.IH [of "Suc k" j'] show ?thesis by (auto split: option.splits)
  qed
qed

lemma pick_digits_exp: "pick_digits x n k = Some (n', s) \<Longrightarrow> n' = n \<or> n' = n + 1"
  by (auto simp: pick_digits_def split: option.splits if_splits)

lemma fl_int_eq:
  assumes "0 \<le> i" "i < 2 ^ 53" "fl (of_int v) = of_int i"
  shows "v = i"
proof (cases "\<bar>v\<bar> < 2 ^ 53")
  case True with assms(3) fl_of_int [OF True] show ?thesis by simp
next
  case False
  show ?thesis
  proof (cases "v < 0")
    case True
    then have "fl (of_int v) \<le> fl (- 1)" by (intro fl_mono) simp
    also have "fl (- 1) = (- 1 :: rat)" by (simp add: fl_uminus)
    finally show ?thesis using assms by simp
  next
    case nn: False
    with False have "(2::rat) powi 53 \<le> of_int v" by (simp add: power_int_def)
    then have "fl (2 powi 53) \<le> fl (of_int v)" by (rule fl_mono)
    then have "(2::rat) powi 53 \<le> of_int i" using assms(3) fl_pow2 [of 53] by simp
    with assms(2) show ?thesis by (simp add: power_int_def)
  qed
qed

lemma number_to_string_int:
  assumes "0 \<le> i" "i < 2 ^ 53"
  shows "number_to_string (Num (of_int i)) = decimal i"
proof (cases "i = 0")
  case True then show ?thesis by (simp add: decimal_def digits10_small)
next
  case False
  with assms(1) have i1: "1 \<le> i" by simp
  define x where "x = (of_int i :: rat)"
  define L where "L = length (digits10 i)"
  have L1: "1 \<le> L" by (simp add: L_def Suc_le_eq)
  have b: "10 powi (int L - 1) \<le> x" "x < 10 powi int L"
    using pow10_digits10 [OF i1] by (simp_all add: x_def L_def)
  have "x < 10 powi (int L - 1 + 1)" using b(2) by simp
  with b(1) have lg: "ilog10 x + 1 = int L" using ilog10_unique by simp
  have "(10::int) ^ (L - 1) < 10 ^ 16"
    using digits10_bounds [of i] i1 assms(2) by (simp add: L_def)
  then have "L - 1 < 16" by (simp only: power_strict_increasing_iff [of "10::int"])
  then have L16: "L \<le> 16" by simp
  have fx: "fl x = x" using fl_of_int [of i] assms by (simp add: x_def)
  have "nearest_digits x (10 powi (int L - int L)) = Some i"
    by (rule nearest_digits_exact [OF _ _ fx]) (simp_all add: x_def)
  moreover have "i \<noteq> 10 ^ L" using digits10_bounds [of i] assms(1) by (simp add: L_def)
  ultimately have pL: "pick_digits x (int L) (1 + (L - 1)) = Some (int L, i)"
    using L1 by (simp add: pick_digits_def)
  have "L - 1 < nat (ilog10 x + 1075)" using lg by simp
  from shortest_digits_found [OF _ this, of x "int L" 1] pL
  obtain n k s where r: "shortest_digits x (int L) 1 (nat (ilog10 x + 1075)) = Some (n, k, s)"
    by (cases "shortest_digits x (int L) 1 (nat (ilog10 x + 1075))") auto
  from shortest_digits_Some [OF r] have k1: "1 \<le> k" and p: "pick_digits x (int L) k = Some (n, s)"
    by auto
  have kL: "k \<le> L" using shortest_digits_le [OF r, of "L - 1"] pL L1 by simp
  have "10 powi (int L - 1) \<le> x" "x < 10 powi (int L)" using b by simp_all
  from pick_digits_Some [OF p k1 this]
  have f: "fl (of_int s * 10 powi (n - int k)) = x" and s: "10 ^ (k - 1) \<le> s" by auto
  have n: "n = int L \<or> n = int L + 1" using pick_digits_exp [OF p] .
  define j where "j = nat (n - int k)"
  have nj: "n - int k = int j" using n kL by (auto simp: j_def)
  have s1: "1 \<le> s" using s by (meson order.trans one_le_power one_le_numeral)
  have "fl (of_int (s * 10 ^ j)) = of_int i" using f by (simp add: nj x_def)
  then have sj: "s * 10 ^ j = i" by (rule fl_int_eq [OF assms])
  have "int k \<le> n" "n \<le> 21" using n kL L16 by auto
  then have "format_decimal n k s = decimal s @ replicate j 48"
    by (simp add: format_decimal_def Let_def j_def nat_diff_distrib)
  also have "\<dots> = decimal i" using decimal_shift [OF s1, of j] sj by simp
  finally have "pos_to_string x = decimal i" unfolding pos_to_string_def lg r by simp
  moreover have "0 < x" using i1 by (simp add: x_def)
  ultimately show ?thesis by (simp add: x_def [symmetric])
qed

subsection \<open>Round trip\<close>

text \<open>Number::toString round-trips: for every finite double \<open>x\<close>, reading
  the string the template literal of line 10 would print for \<open>x\<close> gives back
  \<open>x\<close>.  So the printer's shortest digits always denote the double printed,
  in each of the four formats.\<close>

lemma number_to_string_roundtrip:
  assumes "binary64_grid x" "\<bar>x\<bar> < overflow_bound"
  shows "string_to_number (number_to_string (Num x)) = Num x"
proof (cases "0 < x")
  case True
  obtain v where v: "unsigned_decimal (pos_to_string x) = Some v" "fl v = x"
    "set (pos_to_string x) \<subseteq> {c. is_digit c} \<union> {43, 45, 46, 101}"
    "\<exists>c r. pos_to_string x = c # r \<and> is_digit c"
    using pos_to_string_literal [OF assms(1) True] by blast
  then obtain c r where "pos_to_string x = c # r" "is_digit c" by blast
  from string_to_number_literal [OF v(3) this v(1)] to_num_exact [OF v(2) assms(2)] True
  show ?thesis by simp
next
  case False
  show ?thesis
  proof (cases "x = 0")
    case True
    have "unsigned_decimal [48] = Some 0"
      using unsigned_digits [of "[48]"] by (simp add: is_digit_def digits_value_def)
    from string_to_number_literal [of "[48]" 48 "[]", OF _ _ _ this] True
    show ?thesis by (simp add: is_digit_def to_num_def Let_def fl_def overflow_bound_def)
  next
    case nz: False
    with False have neg: "0 < - x" by simp
    obtain v where v: "unsigned_decimal (pos_to_string (- x)) = Some v" "fl v = - x"
      "set (pos_to_string (- x)) \<subseteq> {c. is_digit c} \<union> {43, 45, 46, 101}"
      "\<exists>c r. pos_to_string (- x) = c # r \<and> is_digit c"
      using pos_to_string_literal [OF binary64_grid_uminus [OF assms(1)] neg] by blast
    then obtain c r where "pos_to_string (- x) = c # r" "is_digit c" by blast
    from string_to_number_literal [OF v(3) this v(1)]
    have "string_to_number (45 # pos_to_string (- x)) = to_num (- v)" by simp
    moreover have "fl (- v) = x" using v(2) by (simp add: fl_uminus)
    ultimately show ?thesis using False nz to_num_exact [of "- v" x] assms(2) by simp
  qed
qed

end
