(* ===== verification/FormData.thy ===== *)
theory FormData
  imports Prelude
begin

text \<open>
  The multipart payload of \<^verbatim>\<open>upload.js\<close> (lines 17 and 29--31): a
  \<^verbatim>\<open>FormData\<close> object is an ordered list of named entries, and the
  \<^verbatim>\<open>for\<close> loop appends one entry \<^verbatim>\<open>'file'\<close> per selected file.  The loop is
  modelled as written, with its index, and shown equal to a \<open>map\<close> over the
  selection.
\<close>

record jsfile =
  file_name :: string
  file_size :: nat

type_synonym entry = "string \<times> jsfile"

type_synonym formdata = "entry list"

definition formdata_append :: "string \<Rightarrow> jsfile \<Rightarrow> formdata \<Rightarrow> formdata" where
  "formdata_append name f d = d @ [(name, f)]"

function append_files :: "jsfile list \<Rightarrow> nat \<Rightarrow> formdata \<Rightarrow> formdata" where
  "append_files files i data =
     (if i < length files
      then append_files files (Suc i) (formdata_append ''file'' (files ! i) data)
      else data)"
  by pat_completeness auto
termination
  by (relation "measure (\<lambda>(files, i, data). length files - i)") auto

declare append_files.simps [simp del]

lemma append_files_drop:
  "append_files files i data = data @ map (\<lambda>f. (''file'', f)) (drop i files)"
proof (induction files i data rule: append_files.induct)
  case (1 files i data)
  show ?case
  proof (cases "i < length files")
    case True
    with "1.IH" show ?thesis
      by (simp add: append_files.simps [of files i data] formdata_append_def Cons_nth_drop_Suc [symmetric])
  next
    case False
    then show ?thesis by (simp add: append_files.simps [of files i data])
  qed
qed

text \<open>C21. The loop of lines 29--31 builds exactly one entry \<^verbatim>\<open>'file'\<close> per
  selected file, in the order of the selection.\<close>

theorem append_files_entries:
  "append_files files 0 [] = map (\<lambda>f. (''file'', f)) files"
  using append_files_drop [of files 0 "[]"] by simp

end
