(* ===== verification/Xhr.thy ===== *)
theory Xhr
  imports FormData
begin

text \<open>
  The browser's \<^verbatim>\<open>XMLHttpRequest\<close>, the transport that \<^verbatim>\<open>upload.js\<close> drives
  (lines 33--64).  It is not code of the repository: it is modelled from the
  XMLHttpRequest standard as the environment of the script.  The object
  keeps its state (\<open>ready\<close>, the send flag, the upload-complete flag, the
  response status, the bytes of the request body sent so far); \<open>xhr_open\<close>
  and \<open>xhr_send\<close> are the two methods the script calls, and every later
  change of the object is one networking task of the browser, which updates
  the object and then fires a list of progress events.  The events are the
  interface to the script: the page dispatches each to the listeners the
  script registered.

  A body chunk always carries at least one byte, so \<open>BodyProgress n\<close> is
  enabled only for \<open>n\<close> strictly above the bytes sent so far.  Every task
  needs the send flag, and \<open>NetworkError\<close> is enabled whenever it is set: a
  sent request can always be ended.

  The response body arrives in chunks (\<open>ResponseBody n\<close>: \<open>n\<close> bytes
  received so far, at most \<open>2^64\<close> as a WebIDL \<^verbatim>\<open>unsigned long long\<close>): the
  first chunk moves the request to \<^verbatim>\<open>LOADING\<close>, and each fires
  \<^verbatim>\<open>readystatechange\<close> and \<^verbatim>\<open>progress\<close> at the request; no listener of the
  script hears them.

  Not modelled: the bytes of the response (the script never reads
  \<^verbatim>\<open>responseText\<close>), the 50 ms throttling of progress events (every chunk
  fires one), time-outs (the script sets none), synchronous requests.
\<close>

datatype ready_state = UNSENT | OPENED | HEADERS_RECEIVED | LOADING | DONE

datatype target = Upload | Request

datatype event_type = LoadStart | Progress | Load | LoadEnd | Error | Abort | ReadyStateChange

text \<open>A progress event: its target, type, \<^verbatim>\<open>loaded\<close> and \<^verbatim>\<open>total\<close>.\<close>

datatype xhr_event = Ev target event_type nat nat

record xhr =
  ready :: ready_state
  send_flag :: bool
  upload_complete :: bool
  upload_listener :: bool
  http_status :: nat
  response_error :: bool
  body_length :: nat
  transmitted :: nat
  received :: nat
  req_method :: string
  req_url :: string
  req_body :: formdata
  response_type :: string

definition new_xhr :: xhr where
  "new_xhr = \<lparr>ready = UNSENT, send_flag = False, upload_complete = False,
     upload_listener = False, http_status = 0, response_error = False, body_length = 0,
     transmitted = 0, received = 0, req_method = [], req_url = [], req_body = [], response_type = []\<rparr>"

definition xhr_open :: "string \<Rightarrow> string \<Rightarrow> xhr \<Rightarrow> xhr" where
  "xhr_open m u x = x\<lparr>ready := OPENED, send_flag := False, http_status := 0,
     response_error := False, req_method := m, req_url := u\<rparr>"

text \<open>
  \<^verbatim>\<open>send(body)\<close>: refused unless the request is opened and not yet sent;
  otherwise it records the body (of \<open>len\<close> bytes once encoded), sets the send
  flag, and fires \<^verbatim>\<open>loadstart\<close> at the request and, when the upload has
  listeners, at its \<^verbatim>\<open>upload\<close> object, synchronously, before it returns.
\<close>

definition xhr_send :: "formdata \<Rightarrow> nat \<Rightarrow> xhr \<Rightarrow> js_error + (xhr \<times> xhr_event list)" where
  "xhr_send body len x =
     (if ready x \<noteq> OPENED \<or> send_flag x then Inl InvalidStateError
      else Inr (x\<lparr>req_body := body, body_length := len, upload_complete := False,
                  send_flag := True, transmitted := 0, received := 0\<rparr>,
                Ev Request LoadStart 0 0 #
                (if upload_listener x then [Ev Upload LoadStart 0 len] else [])))"

text \<open>The networking tasks of the browser, once the request is sent.\<close>

datatype task =
    BodyProgress nat    \<comment> \<open>some more bytes of the request body are sent\<close>
  | BodyEnd             \<comment> \<open>the request body is fully sent\<close>
  | ResponseHeaders nat \<comment> \<open>the response head arrives, with its status\<close>
  | ResponseBody nat    \<comment> \<open>a chunk of the response body arrives; bytes so far\<close>
  | ResponseEnd nat     \<comment> \<open>the response body is complete, of the given length\<close>
  | NetworkError        \<comment> \<open>the fetch fails\<close>
  | FetchAbort          \<comment> \<open>the fetch is aborted by the browser\<close>

fun task_enabled :: "xhr \<Rightarrow> task \<Rightarrow> bool" where
  "task_enabled x (BodyProgress n) =
     (send_flag x \<and> \<not> upload_complete x \<and> transmitted x < n \<and> n \<le> body_length x)"
| "task_enabled x BodyEnd = (send_flag x \<and> \<not> upload_complete x)"
| "task_enabled x (ResponseHeaders st) = (send_flag x \<and> upload_complete x \<and> ready x = OPENED)"
| "task_enabled x (ResponseBody n) =
     (send_flag x \<and> (ready x = HEADERS_RECEIVED \<or> ready x = LOADING) \<and> received x < n \<and> n \<le> 2 ^ 64)"
| "task_enabled x (ResponseEnd rx) =
     (send_flag x \<and> (ready x = HEADERS_RECEIVED \<or> ready x = LOADING) \<and> received x \<le> rx)"
| "task_enabled x NetworkError = send_flag x"
| "task_enabled x FetchAbort = send_flag x"

text \<open>
  The request error steps of the standard, for the event \<open>ev\<close>
  (\<^verbatim>\<open>error\<close> or \<^verbatim>\<open>abort\<close>): the request is done, and the events go to
  the upload object only if the upload had not completed.
\<close>

definition request_error :: "event_type \<Rightarrow> xhr \<Rightarrow> xhr \<times> xhr_event list" where
  "request_error ev x =
     (x\<lparr>ready := DONE, send_flag := False, response_error := True, http_status := 0,
        upload_complete := True\<rparr>,
      Ev Request ReadyStateChange 0 0 #
      (if \<not> upload_complete x \<and> upload_listener x
       then [Ev Upload ev 0 0, Ev Upload LoadEnd 0 0] else []) @
      [Ev Request ev 0 0, Ev Request LoadEnd 0 0])"

fun run_task :: "task \<Rightarrow> xhr \<Rightarrow> xhr \<times> xhr_event list" where
  "run_task (BodyProgress n) x =
     (x\<lparr>transmitted := n\<rparr>,
      if upload_listener x then [Ev Upload Progress n (body_length x)] else [])"
| "run_task BodyEnd x =
     (x\<lparr>upload_complete := True, transmitted := body_length x\<rparr>,
      if upload_listener x
      then [Ev Upload Progress (body_length x) (body_length x),
            Ev Upload Load (body_length x) (body_length x),
            Ev Upload LoadEnd (body_length x) (body_length x)]
      else [])"
| "run_task (ResponseHeaders st) x =
     (x\<lparr>ready := HEADERS_RECEIVED, http_status := st\<rparr>, [Ev Request ReadyStateChange 0 0])"
| "run_task (ResponseBody n) x =
     (x\<lparr>ready := LOADING, received := n\<rparr>, [Ev Request ReadyStateChange 0 0, Ev Request Progress n 0])"
| "run_task (ResponseEnd rx) x =
     (x\<lparr>ready := DONE, send_flag := False\<rparr>,
      [Ev Request Progress rx rx, Ev Request ReadyStateChange 0 0,
       Ev Request Load rx rx, Ev Request LoadEnd rx rx])"
| "run_task NetworkError x = request_error Error x"
| "run_task FetchAbort x = request_error Abort x"

text \<open>
  The well-formed request objects: the states the script's request can be in
  once sent (it registers upload listeners, its body is a non-empty
  multipart body of at most \<open>2^64\<close> bytes, no response before the whole
  body is sent).
\<close>

definition xhr_wf :: "xhr \<Rightarrow> bool" where
  "xhr_wf x \<longleftrightarrow> upload_listener x \<and> 0 < body_length x \<and> body_length x \<le> 2 ^ 64 \<and>
     transmitted x \<le> body_length x \<and> ready x \<noteq> UNSENT \<and>
     (send_flag x \<longleftrightarrow> ready x \<noteq> DONE) \<and> (ready x \<noteq> OPENED \<longrightarrow> upload_complete x) \<and>
     (response_error x \<longrightarrow> ready x = DONE)"

text \<open>
  A bound on the tasks still to come: the bytes not yet sent, the end of the
  body, the response head, the response bytes not yet received and the
  response end.  It is the termination
  measure of the request's lifecycle.
\<close>

definition tasks_left :: "xhr \<Rightarrow> nat" where
  "tasks_left x = (if send_flag x
     then (body_length x - transmitted x) + (if upload_complete x then 0 else 1) +
          (if ready x = OPENED then 2 ^ 64 + 2 else (2 ^ 64 - received x) + 1)
     else 0)"

text \<open>A sequence of networking tasks run in order; \<open>None\<close> if one of them is
  not enabled when its turn comes.\<close>

fun run_tasks :: "task list \<Rightarrow> xhr \<Rightarrow> xhr option" where
  "run_tasks [] x = Some x"
| "run_tasks (tk # tks) x =
     (if task_enabled x tk then run_tasks tks (fst (run_task tk x)) else None)"

text \<open>A request just sent with a body of 200 bytes, for the witnesses.\<close>

definition demo_sent :: xhr where
  "demo_sent = new_xhr\<lparr>ready := OPENED, send_flag := True, upload_listener := True,
     body_length := 200\<rparr>"

subsection \<open>The lifecycle terminates\<close>

lemma tasks_left_run_task:
  "task_enabled x tk \<Longrightarrow> tasks_left (fst (run_task tk x)) < tasks_left x"
  by (cases tk) (auto simp: tasks_left_def request_error_def)

text \<open>The networking tasks of a request terminate: there is no infinite
  sequence of enabled tasks.\<close>

lemma xhr_tasks_terminate: "wf {(fst (run_task tk x), x) | tk x. task_enabled x tk}"
  by (rule wf_subset [OF wf_measure [of tasks_left]]) (auto simp: tasks_left_run_task)

text \<open>Every sequence of tasks that runs on a request is no longer than
  \<open>tasks_left\<close>: for a request just sent with a body of \<open>len\<close> bytes, at most
  \<open>len + 2^64 + 3\<close> tasks.\<close>

lemma run_tasks_bound: "run_tasks tks x = Some y \<Longrightarrow> length tks \<le> tasks_left x"
proof (induction tks arbitrary: x)
  case Nil then show ?case by simp
next
  case (Cons tk tks)
  then have en: "task_enabled x tk" and r: "run_tasks tks (fst (run_task tk x)) = Some y"
    by (simp_all split: if_splits)
  from Cons.IH [OF r] tasks_left_run_task [OF en] show ?case by simp
qed

text \<open>The well-formedness of the request object is preserved by every
  enabled task.\<close>

lemma xhr_wf_run_task: "xhr_wf x \<Longrightarrow> task_enabled x tk \<Longrightarrow> xhr_wf (fst (run_task tk x))"
  by (cases tk) (auto simp: xhr_wf_def request_error_def)

subsection \<open>Witnesses\<close>

end
