(* ===== verification/Page.thy ===== *)
theory Page
  imports NumberString Xhr
begin

text \<open>
  The page that \<^verbatim>\<open>upload.js\<close> runs in, and the helpers at the top of the
  script (lines 1--12).  The record \<open>page\<close> holds what the script reads and
  writes: the \<^verbatim>\<open>#status\<close> element's \<^verbatim>\<open>innerHTML\<close>, the
  \<^verbatim>\<open>progress\<close> element's value, the file input (its selection and whether it
  is hidden), whether the submit control is still in the document, the
  alerts shown, the NoSleep wake lock and the log of calls made to it, the
  requests sent over the network, the one \<^verbatim>\<open>XMLHttpRequest\<close> object, the
  exceptions reported by event dispatch, and the flags of the submit event.
  \<open>event_log\<close> records every transport event delivered to the page; it is an
  instrument of the model, not state of the script, and lets the lemmas speak
  of the order of events.

  NoSleep (\<^verbatim>\<open>new NoSleep()\<close>, line 2) is a library: only its
  \<^verbatim>\<open>enable\<close>/\<^verbatim>\<open>disable\<close> calls and the resulting lock state are modelled.
\<close>

datatype wake_call = Enable | Disable

record page =
  status_html :: ustring
  progress_value :: rat
  file_input_hidden :: bool
  file_selection :: "jsfile list"
  submit_present :: bool
  alerts :: "ustring list"
  wake_enabled :: bool
  wake_calls :: "wake_call list"
  sent :: "(string \<times> string \<times> formdata) list"
  xhr_obj :: "xhr option"
  console :: "js_error list"
  event_canceled :: bool
  navigated :: bool
  pathname :: string
  event_log :: "xhr_event list"

subsection \<open>The messages of the script\<close>

text \<open>Line 1, \<^verbatim>\<open>errorText\<close>: U+1F62C, U+1F525 and U+274C, then the text.\<close>

definition errorText :: ustring where
  "errorText = [128556, 32, 128293, 32, 10060] @ ustr '' Ooops, something went wrong''"

text \<open>Line 56: U+2705, then the link back to \<^verbatim>\<open>/\<close> (34 is the double quote).\<close>

definition successText :: ustring where
  "successText = [9989] @ ustr '' All done! <a href='' @ [34] @ ustr ''/'' @ [34] @
     ustr ''>Share more stuff?</a>''"

text \<open>Line 10: U+231B, \<^verbatim>\<open>Uploading\<close>, U+2026, the number, \<^verbatim>\<open>% done\<close>.\<close>

definition progress_text :: "jsnum \<Rightarrow> ustring" where
  "progress_text n = [8987] @ ustr '' Uploading'' @ [8230, 32] @ number_to_string n @ ustr ''% done''"

definition alertText :: ustring where
  "alertText = ustr ''Select some files first!''"

subsection \<open>Operations\<close>

text \<open>\<^verbatim>\<open>updateStatus\<close>, lines 4--6: the status is overwritten, never appended.\<close>

definition updateStatus :: "ustring \<Rightarrow> page \<Rightarrow> page" where
  "updateStatus text p = p\<lparr>status_html := text\<rparr>"

text \<open>
  The setter of \<^verbatim>\<open>progress.value\<close> takes a WebIDL \<^verbatim>\<open>double\<close>: a non-finite
  value throws a \<^verbatim>\<open>TypeError\<close>.
\<close>

definition set_progress_value :: "jsnum \<Rightarrow> page \<Rightarrow> page completion" where
  "set_progress_value v p =
     (case v of Num r \<Rightarrow> Normal (p\<lparr>progress_value := r\<rparr>)
      | _ \<Rightarrow> Throw (TypeError ''The provided double value is non-finite.'') p)"

text \<open>Line 9: \<^verbatim>\<open>Math.floor(100 * percentage)\<close>.\<close>

definition formatted_percentage :: "jsnum \<Rightarrow> jsnum" where
  "formatted_percentage percentage = js_floor (js_mul (Num 100) percentage)"

text \<open>\<^verbatim>\<open>updateProgress\<close>, lines 8--12: the status first, then the indicator.\<close>

definition updateProgress :: "jsnum \<Rightarrow> page \<Rightarrow> page completion" where
  "updateProgress percentage p =
     set_progress_value percentage
       (updateStatus (progress_text (formatted_percentage percentage)) p)"

definition noSleep_enable :: "page \<Rightarrow> page" where
  "noSleep_enable p = p\<lparr>wake_enabled := True, wake_calls := wake_calls p @ [Enable]\<rparr>"

definition noSleep_disable :: "page \<Rightarrow> page" where
  "noSleep_disable p = p\<lparr>wake_enabled := False, wake_calls := wake_calls p @ [Disable]\<rparr>"

text \<open>The ratio of a progress event, line 36: \<^verbatim>\<open>e.loaded / e.total\<close>.\<close>

definition progress_ratio :: "nat \<Rightarrow> nat \<Rightarrow> jsnum" where
  "progress_ratio e_loaded e_total = js_div (js_of_nat e_loaded) (js_of_nat e_total)"

subsection \<open>Lemmas on the helpers\<close>

lemma updateProgress_Num [js_simps]:
  "updateProgress (Num r) p =
     Normal (p\<lparr>status_html := progress_text (formatted_percentage (Num r)), progress_value := r\<rparr>)"
  by (simp add: updateProgress_def set_progress_value_def updateStatus_def)

lemma to_num_unit:
  assumes "0 \<le> fl x" "fl x \<le> 2 powi 64" shows "to_num x = Num (fl x)"
  using assms by (intro to_num_Num) (simp_all add: order.strict_trans1)

lemma progress_ratio_Num:
  assumes "0 < t" "t \<le> 2 ^ 64" "l \<le> t"
  shows "progress_ratio l t = Num (fl (fl (of_nat l) / fl (of_nat t)))
    \<and> 0 \<le> fl (fl (of_nat l) / fl (of_nat t)) \<and> fl (fl (of_nat l) / fl (of_nat t)) \<le> 1"
proof -
  let ?a = "fl (of_nat l)" and ?b = "fl (of_nat t)"
  have lt: "js_of_nat l = Num ?a" "js_of_nat t = Num ?b"
    using assms js_of_nat_Num by auto
  have b: "1 \<le> ?b" using assms(1) by (intro fl_pos) simp
  have ab: "?a \<le> ?b" using assms(3) by (intro fl_mono) simp
  have "0 \<le> ?a" by (simp add: fl_nonneg)
  with ab b have "0 \<le> ?a / ?b \<and> ?a / ?b \<le> 1" by simp
  then have r: "0 \<le> fl (?a / ?b) \<and> fl (?a / ?b) \<le> 1"
    using fl_mono [of "?a / ?b" 1] fl_nonneg by auto
  then have "to_num (?a / ?b) = Num (fl (?a / ?b))"
    by (intro to_num_unit) auto
  moreover have "progress_ratio l t = js_div (Num ?a) (Num ?b)"
    by (simp only: progress_ratio_def lt)
  moreover have "js_div (Num ?a) (Num ?b) = to_num (?a / ?b)"
    using b by (simp only: js_div.simps) simp
  ultimately show ?thesis using r by simp
qed

lemma formatted_percentage_Num:
  assumes "0 \<le> r" "r \<le> 1"
  shows "formatted_percentage (Num r) = Num (of_int \<lfloor>fl (100 * r)\<rfloor>)
    \<and> 0 \<le> \<lfloor>fl (100 * r)\<rfloor> \<and> \<lfloor>fl (100 * r)\<rfloor> \<le> 100"
proof -
  have h: "0 \<le> fl (100 * r) \<and> fl (100 * r) \<le> 100"
    using assms fl_mono [of "100 * r" 100] fl_nonneg [of "100 * r"] by simp
  then have "to_num (100 * r) = Num (fl (100 * r))" by (intro to_num_unit) auto
  with h show ?thesis by (simp add: formatted_percentage_def)
qed

lemma progress_ratio_mono:
  assumes "0 < t" "t \<le> 2 ^ 64" "l \<le> l'" "l' \<le> t"
  shows "fl (fl (of_nat l) / fl (of_nat t)) \<le> fl (fl (of_nat l') / fl (of_nat t))"
proof -
  have "fl (of_nat l) / fl (of_nat t) \<le> fl (of_nat l') / fl (of_nat t)"
    using assms(3) fl_pos [of "of_nat t"] assms(1) by (intro divide_right_mono fl_mono) simp_all
  then show ?thesis by (rule fl_mono)
qed

lemma progress_ratio_full:
  assumes "0 < t" "t \<le> 2 ^ 64" shows "progress_ratio t t = Num 1"
proof -
  have "1 \<le> fl (of_nat t)" using assms by (intro fl_pos) simp
  then show ?thesis using progress_ratio_Num [OF assms order.refl] by simp
qed

subsection \<open>Properties of the progress display\<close>

text \<open>C16. For a progress event of an upload of at most \<open>2^64\<close> bytes with
  \<open>loaded \<le> total\<close>, the percentage shown is an integer between 0 and 100.\<close>

theorem percentage_bounds:
  assumes "0 < t" "t \<le> 2 ^ 64" "l \<le> t"
  shows "\<exists>k. formatted_percentage (progress_ratio l t) = Num (of_int k) \<and> 0 \<le> k \<and> k \<le> 100"
  using progress_ratio_Num [OF assms] formatted_percentage_Num by auto

theorem percentage_bounds_witness:
  "0 < (200::nat) \<and> (200::nat) \<le> 2 ^ 64 \<and> (50::nat) \<le> 200 \<and>
   (\<exists>k. formatted_percentage (progress_ratio 50 200) = Num (of_int k) \<and> 0 \<le> k \<and> k \<le> 100)"
  using percentage_bounds [of 200 50] by simp

text \<open>C17. The percentage shown never decreases as more bytes are sent.\<close>

theorem percentage_mono:
  assumes "0 < t" "t \<le> 2 ^ 64" "l \<le> l'" "l' \<le> t"
  shows "\<exists>a b. formatted_percentage (progress_ratio l t) = Num a
            \<and> formatted_percentage (progress_ratio l' t) = Num b \<and> a \<le> b"
proof -
  have l: "l \<le> t" using assms by simp
  note rl = progress_ratio_Num [OF assms(1,2) l] and rl' = progress_ratio_Num [OF assms(1,2,4)]
  have "fl (100 * fl (fl (of_nat l) / fl (of_nat t))) \<le> fl (100 * fl (fl (of_nat l') / fl (of_nat t)))"
    by (rule fl_mono, rule mult_left_mono [OF progress_ratio_mono [OF assms]]) simp
  then show ?thesis
    using rl rl' formatted_percentage_Num by (auto intro: floor_mono)
qed

theorem percentage_mono_witness:
  "0 < (100::nat) \<and> (100::nat) \<le> 2 ^ 64 \<and> (28::nat) \<le> 29 \<and> (29::nat) \<le> 100 \<and>
   (\<exists>a b. formatted_percentage (progress_ratio 28 100) = Num a
       \<and> formatted_percentage (progress_ratio 29 100) = Num b \<and> a \<le> b)"
  using percentage_mono [of 100 28 29] by simp

text \<open>C18. When all bytes are sent, the ratio is exactly 1 and 100 is shown.\<close>

theorem percentage_complete:
  assumes "0 < t" "t \<le> 2 ^ 64"
  shows "progress_ratio t t = Num 1 \<and> formatted_percentage (progress_ratio t t) = Num 100"
  using progress_ratio_full [OF assms] formatted_percentage_Num [of 1] by simp

theorem percentage_complete_witness:
  "0 < (4096::nat) \<and> (4096::nat) \<le> 2 ^ 64 \<and>
   progress_ratio 4096 4096 = Num 1 \<and> formatted_percentage (progress_ratio 4096 4096) = Num 100"
proof -
  have h: "0 < (4096::nat)" "(4096::nat) \<le> 2 ^ 64" by simp_all
  with percentage_complete [OF h] show ?thesis by blast
qed

text \<open>C19. Every progress event of a body of at most \<open>2^64\<close> bytes, with
  \<open>loaded \<le> total\<close>, renders the hourglass message with the plain decimal
  digits of the integer percentage \<open>\<lfloor>fl (100 * r)\<rfloor>\<close> of the binary64 ratio
  \<open>r\<close>, between 0 and 100, and sets the indicator to \<open>r\<close>.\<close>

theorem progress_message:
  assumes "0 < t" "t \<le> 2 ^ 64" "l \<le> t"
  shows "\<exists>r. progress_ratio l t = Num r \<and> 0 \<le> \<lfloor>fl (100 * r)\<rfloor> \<and> \<lfloor>fl (100 * r)\<rfloor> \<le> 100 \<and>
    (\<forall>p. updateProgress (progress_ratio l t) p =
       Normal (p\<lparr>status_html := [8987] @ ustr '' Uploading'' @ [8230, 32] @
                                decimal \<lfloor>fl (100 * r)\<rfloor> @ ustr ''% done'',
                 progress_value := r\<rparr>))"
proof -
  obtain r where r: "progress_ratio l t = Num r" "0 \<le> r" "r \<le> 1"
    using progress_ratio_Num [OF assms] by blast
  note f = formatted_percentage_Num [OF r(2,3)]
  have "\<lfloor>fl (100 * r)\<rfloor> \<le> 100" using f by blast
  moreover have "(100::int) < 2 ^ 53" by simp
  ultimately have "\<lfloor>fl (100 * r)\<rfloor> < 2 ^ 53" by linarith
  then have "number_to_string (formatted_percentage (Num r)) = decimal \<lfloor>fl (100 * r)\<rfloor>"
    using f number_to_string_int by simp
  with r f show ?thesis by (simp add: updateProgress_Num progress_text_def)
qed

theorem progress_message_witness:
  "0 < (200::nat) \<and> (200::nat) \<le> 2 ^ 64 \<and> (50::nat) \<le> 200 \<and>
   (\<exists>r. progress_ratio 50 200 = Num r \<and> 0 \<le> \<lfloor>fl (100 * r)\<rfloor> \<and> \<lfloor>fl (100 * r)\<rfloor> \<le> 100 \<and>
    (\<forall>p. updateProgress (progress_ratio 50 200) p =
       Normal (p\<lparr>status_html := [8987] @ ustr '' Uploading'' @ [8230, 32] @
                                decimal \<lfloor>fl (100 * r)\<rfloor> @ ustr ''% done'',
                 progress_value := r\<rparr>)))"
  using progress_message [of 200 50] by simp

text \<open>The example of the specification: 50 of 200 bytes renders \<open>25% done\<close>
  and sets the indicator to 0.25.\<close>

lemma progress_50_of_200:
  "updateProgress (progress_ratio 50 200) p =
     Normal (p\<lparr>status_html := [8987] @ ustr '' Uploading'' @ [8230, 32] @ ustr ''25% done'',
               progress_value := 1/4\<rparr>)"
proof -
  have r: "progress_ratio 50 200 = Num (1/4)" by code_simp
  have f: "number_to_string (formatted_percentage (Num (1/4))) = ustr ''25''" by code_simp
  show ?thesis by (simp add: r updateProgress_Num progress_text_def f)
qed

lemma ratio_rel:
  assumes "0 < t" "t \<le> 2 ^ 64" "0 < l" "l \<le> t"
  defines "e \<equiv> (1::rat) / 2 ^ 53" and "q \<equiv> (of_nat l / of_nat t :: rat)"
  shows "100 * q * ((1 - e) ^ 3 / (1 + e)) \<le> fl (100 * fl (fl (of_nat l) / fl (of_nat t))) \<and>
         fl (100 * fl (fl (of_nat l) / fl (of_nat t))) \<le> 100 * q * ((1 + e) ^ 3 / (1 - e))"
proof -
  define L where "L = (of_nat l :: rat)"
  define T where "T = (of_nat t :: rat)"
  have e: "0 < e" "e < 1 / 1000" by (simp_all add: e_def)
  have L: "1 \<le> L" using assms(3) by (simp add: L_def)
  have T: "1 \<le> T" "T \<le> 2 ^ 64" using assms(1,2) by (simp_all add: T_def)
  have small: "1 / 2 ^ 65 \<le> (1::rat)" by simp
  have a: "L * (1 - e) \<le> fl L" "fl L \<le> L * (1 + e)"
    using fl_rel [OF order.trans [OF small L]] by (simp_all add: e_def)
  have b: "T * (1 - e) \<le> fl T" "fl T \<le> T * (1 + e)"
    using fl_rel [OF order.trans [OF small T(1)]] by (simp_all add: e_def)
  have Te: "0 < T * (1 - e)" using T e by simp
  have bpos: "0 < fl T" using Te b(1) by linarith
  have qdef: "q = L / T" by (simp add: q_def L_def T_def)
  define c where "c = fl L / fl T"
  have "c \<le> L * (1 + e) / fl T" unfolding c_def using a(2) bpos by (simp add: divide_right_mono)
  also have "\<dots> \<le> L * (1 + e) / (T * (1 - e))"
    by (rule divide_left_mono) (use b(1) Te L e bpos in \<open>simp_all\<close>)
  also have "\<dots> = q * ((1 + e) / (1 - e))" using T e by (simp add: qdef field_simps)
  finally have c_hi: "c \<le> q * ((1 + e) / (1 - e))" .
  have "q * ((1 - e) / (1 + e)) = L * (1 - e) / (T * (1 + e))" using T e by (simp add: qdef field_simps)
  also have "\<dots> \<le> L * (1 - e) / fl T"
    by (rule divide_left_mono) (use b(2) Te L e bpos in \<open>simp_all\<close>)
  also have "\<dots> \<le> c" unfolding c_def using a(1) bpos by (simp add: divide_right_mono)
  finally have c_lo: "q * ((1 - e) / (1 + e)) \<le> c" .
  have "1 / T \<le> q" using L T by (simp add: qdef divide_right_mono)
  moreover have "1 / 2 ^ 64 \<le> 1 / T" using T by (simp add: frac_le)
  moreover have "1 / 2 \<le> (1 - e) / (1 + e)" using e by (simp add: field_simps)
  ultimately have h: "1 / 2 ^ 64 * (1 / 2) \<le> q * ((1 - e) / (1 + e))"
    by (intro mult_mono) simp_all
  have c_big: "1 / 2 ^ 65 \<le> c" using order.trans [OF h c_lo] by simp
  have r: "c * (1 - e) \<le> fl c" "fl c \<le> c * (1 + e)" using fl_rel [OF c_big] by (simp_all add: e_def)
  have "c \<le> 100 * (c * (1 - e))" using c_big e by (simp add: field_simps)
  with r(1) c_big have v_big: "1 / 2 ^ 65 \<le> 100 * fl c" by linarith
  have p: "100 * fl c * (1 - e) \<le> fl (100 * fl c)" "fl (100 * fl c) \<le> 100 * fl c * (1 + e)"
    using fl_rel [OF v_big] by (simp_all add: e_def)
  have c0: "0 \<le> c" using c_big by (rule order.trans [rotated]) simp
  have q0: "0 \<le> q" by (simp add: q_def)
  have "100 * fl c * (1 + e) \<le> 100 * (c * (1 + e)) * (1 + e)" using r(2) e by simp
  also have "\<dots> \<le> 100 * (q * ((1 + e) / (1 - e)) * (1 + e)) * (1 + e)"
  proof -
    have "c * (1 + e) \<le> q * ((1 + e) / (1 - e)) * (1 + e)"
      by (rule mult_right_mono [OF c_hi]) (use e in simp)
    then have "100 * (c * (1 + e)) \<le> 100 * (q * ((1 + e) / (1 - e)) * (1 + e))" by simp
    then show ?thesis by (rule mult_right_mono) (use e in simp)
  qed
  also have "\<dots> = 100 * q * ((1 + e) ^ 3 / (1 - e))" by (simp add: power3_eq_cube field_simps)
  finally have hi: "fl (100 * fl c) \<le> 100 * q * ((1 + e) ^ 3 / (1 - e))" using p(2) by linarith
  have "100 * q * ((1 - e) ^ 3 / (1 + e)) = 100 * (q * ((1 - e) / (1 + e)) * (1 - e)) * (1 - e)"
    by (simp add: power3_eq_cube field_simps)
  also have "\<dots> \<le> 100 * (c * (1 - e)) * (1 - e)"
  proof -
    have "q * ((1 - e) / (1 + e)) * (1 - e) \<le> c * (1 - e)"
      by (rule mult_right_mono [OF c_lo]) (use e in simp)
    then have "100 * (q * ((1 - e) / (1 + e)) * (1 - e)) \<le> 100 * (c * (1 - e))" by simp
    then show ?thesis by (rule mult_right_mono) (use e in simp)
  qed
  also have "\<dots> \<le> 100 * fl c * (1 - e)" using r(1) e by simp
  finally have lo: "100 * q * ((1 - e) ^ 3 / (1 + e)) \<le> fl (100 * fl c)" using p(1) by linarith
  from lo hi show ?thesis by (simp add: c_def L_def T_def)
qed

lemma percentage_close:
  assumes "0 < t" "t \<le> 2 ^ 64" "l \<le> t"
  shows "100 * (of_nat l / of_nat t) - 1 < fl (100 * fl (fl (of_nat l) / fl (of_nat t))) \<and>
         fl (100 * fl (fl (of_nat l) / fl (of_nat t))) < 100 * (of_nat l / of_nat t :: rat) + 1"
proof (cases "l = 0")
  case True then show ?thesis by (simp add: fl_def)
next
  case False
  define q where "q = (of_nat l / of_nat t :: rat)"
  define p where "p = fl (100 * fl (fl (of_nat l) / fl (of_nat t :: rat)))"
  define e where "e = (1::rat) / 2 ^ 53"
  define F where "F = (1 + e) ^ 3 / (1 - e)"
  define G where "G = (1 - e) ^ 3 / (1 + e)"
  have b: "100 * q * G \<le> p" "p \<le> 100 * q * F"
    using ratio_rel [OF assms(1,2) _ assms(3)] False by (simp_all add: p_def q_def e_def F_def G_def)
  have q: "0 \<le> q" "q \<le> 1" using assms by (simp_all add: q_def)
  have F: "0 \<le> F - 1" "100 * (F - 1) < 1" by (simp_all add: F_def e_def power_divide)
  have G: "0 \<le> 1 - G" "100 * (1 - G) < 1" by (simp_all add: G_def e_def power_divide)
  have "q * (F - 1) \<le> 1 * (F - 1)" by (rule mult_right_mono) (use q F in simp_all)
  then have "100 * q * F - 100 * q \<le> 100 * (F - 1)" by (simp add: algebra_simps)
  with b(2) F(2) have hi: "p < 100 * q + 1" by linarith
  have "q * (1 - G) \<le> 1 * (1 - G)" by (rule mult_right_mono) (use q G in simp_all)
  then have "100 * q - 100 * q * G \<le> 100 * (1 - G)" by (simp add: algebra_simps)
  with b(1) G(2) have lo: "100 * q - 1 < p" by linarith
  from lo hi have "100 * q - 1 < p" "p < 100 * q + 1" by simp_all
  then show ?thesis by (simp add: p_def q_def)
qed

text \<open>C20. Line 9 computes the percentage in binary64, not exactly: for every
  progress event of a body of at most \<open>2^64\<close> bytes with \<open>loaded \<le> total\<close>,
  the integer shown is within one of the exact \<open>\<lfloor>100 * loaded / total\<rfloor>\<close> of the
  specification (the four roundings of \<^verbatim>\<open>e.loaded\<close>, \<^verbatim>\<open>e.total\<close>, the
  quotient and the product each err by at most \<open>2 powi -53\<close> relative), and
  it does differ: 29 of 100 bytes shows 28.\<close>

theorem percentage_within_one:
  assumes "0 < t" "t \<le> 2 ^ 64" "l \<le> t"
  shows "\<exists>k. formatted_percentage (progress_ratio l t) = Num (of_int k) \<and>
    \<lfloor>100 * (of_nat l / of_nat t :: rat)\<rfloor> - 1 \<le> k \<and> k \<le> \<lfloor>100 * (of_nat l / of_nat t :: rat)\<rfloor> + 1"
proof -
  obtain r where r: "progress_ratio l t = Num r" "r = fl (fl (of_nat l) / fl (of_nat t))" "0 \<le> r" "r \<le> 1"
    using progress_ratio_Num [OF assms] by blast
  define x where "x = 100 * (of_nat l / of_nat t :: rat)"
  have c: "x - 1 < fl (100 * r)" "fl (100 * r) < x + 1"
    using percentage_close [OF assms] by (simp_all add: r(2) x_def)
  have "of_int (\<lfloor>x\<rfloor> - 1) \<le> fl (100 * r)"
    by (simp only: of_int_diff of_int_1) (use c(1) of_int_floor_le [of x] in linarith)
  then have "\<lfloor>x\<rfloor> - 1 \<le> \<lfloor>fl (100 * r)\<rfloor>" by (simp only: le_floor_iff)
  moreover have "\<lfloor>fl (100 * r)\<rfloor> \<le> \<lfloor>x\<rfloor> + 1"
  proof -
    have "fl (100 * r) < of_int (\<lfloor>x\<rfloor> + 2)" using c(2) floor_correct [of x] by simp
    then have "\<lfloor>fl (100 * r)\<rfloor> < \<lfloor>x\<rfloor> + 2" by (simp only: floor_less_iff)
    then show ?thesis by simp
  qed
  ultimately show ?thesis
    using formatted_percentage_Num [OF r(3,4)] r(1) by (auto simp: x_def)
qed

theorem percentage_within_one_witness:
  "0 < (100::nat) \<and> (100::nat) \<le> 2 ^ 64 \<and> (29::nat) \<le> 100 \<and>
   (\<exists>k. formatted_percentage (progress_ratio 29 100) = Num (of_int k) \<and>
      \<lfloor>100 * (of_nat 29 / of_nat 100 :: rat)\<rfloor> - 1 \<le> k \<and> k \<le> \<lfloor>100 * (of_nat 29 / of_nat 100 :: rat)\<rfloor> + 1) \<and>
   formatted_percentage (progress_ratio 29 100) = Num 28 \<and> \<lfloor>100 * (of_nat 29 / of_nat 100 :: rat)\<rfloor> = 29"
proof -
  have h: "0 < (100::nat)" "(100::nat) \<le> 2 ^ 64" "(29::nat) \<le> 100" by simp_all
  have "formatted_percentage (progress_ratio 29 100) = Num 28" by code_simp
  moreover have "\<lfloor>100 * (of_nat 29 / of_nat 100 :: rat)\<rfloor> = 29" by simp
  ultimately show ?thesis using h percentage_within_one [OF h] by blast
qed

text \<open>A progress event with \<open>total = 0\<close> writes \<open>NaN% done\<close> and then
  the indicator's setter throws.\<close>

lemma progress_zero_total:
  "updateProgress (progress_ratio 0 0) p =
     Throw (TypeError ''The provided double value is non-finite.'')
       (p\<lparr>status_html := [8987] @ ustr '' Uploading'' @ [8230, 32] @ ustr ''NaN% done''\<rparr>)"
proof -
  have "progress_ratio 0 0 = NaN" by code_simp
  then show ?thesis
    by (simp add: updateProgress_def set_progress_value_def updateStatus_def progress_text_def
        formatted_percentage_def)
qed

end
