(* ===== verification/Upload.thy ===== *)
theory Upload
  imports Page
begin

text \<open>
  The form controller of \<^verbatim>\<open>upload.js\<close>: the submit handler (lines 15--65)
  with the six listeners it registers on the request (lines 35--62), the
  dispatch of transport events to them, and the whole page as a system whose
  steps are the user's actions (choosing files, submitting the form) and the
  browser's networking tasks on the request.  The reachable states are those
  of any run from a freshly loaded page; the invariant \<open>upload_inv\<close> says
  what holds in each phase of the upload.
\<close>

subsection \<open>The listeners\<close>

text \<open>Lines 35--37.\<close>

definition upload_progress_listener :: "nat \<Rightarrow> nat \<Rightarrow> page \<Rightarrow> page completion" where
  "upload_progress_listener e_loaded e_total = updateProgress (progress_ratio e_loaded e_total)"

text \<open>Lines 38--40.\<close>

definition upload_loadstart_listener :: "page \<Rightarrow> page completion" where
  "upload_loadstart_listener = updateProgress (Num 0)"

text \<open>Lines 41--44.\<close>

definition upload_load_listener :: "page \<Rightarrow> page completion" where
  "upload_load_listener = seq (updateProgress (Num 1)) (\<lambda>p. Normal (noSleep_disable p))"

text \<open>Lines 45--48 and 49--52.\<close>

definition upload_abort_listener :: "page \<Rightarrow> page completion" where
  "upload_abort_listener p = Normal (noSleep_disable (updateStatus errorText p))"

definition upload_error_listener :: "page \<Rightarrow> page completion" where
  "upload_error_listener p = Normal (noSleep_disable (updateStatus errorText p))"

text \<open>Lines 53--62: \<^verbatim>\<open>e.target\<close> is the request \<open>x\<close>.\<close>

definition request_load_listener :: "xhr \<Rightarrow> page \<Rightarrow> page completion" where
  "request_load_listener x p =
     (if ready x = DONE
      then Normal (noSleep_disable
             (if http_status x = 200 then updateStatus successText p else updateStatus errorText p))
      else Normal p)"

text \<open>The listeners registered on the request and its upload object; every
  other event has none.\<close>

fun listener :: "xhr_event \<Rightarrow> xhr \<Rightarrow> page \<Rightarrow> page completion" where
  "listener (Ev Upload Progress l t) x = upload_progress_listener l t"
| "listener (Ev Upload LoadStart l t) x = upload_loadstart_listener"
| "listener (Ev Upload Load l t) x = upload_load_listener"
| "listener (Ev Upload Abort l t) x = upload_abort_listener"
| "listener (Ev Upload Error l t) x = upload_error_listener"
| "listener (Ev Request Load l t) x = request_load_listener x"
| "listener e x = Normal"

subsection \<open>Event dispatch\<close>

text \<open>An exception escaping a listener is reported and dispatch goes on.\<close>

definition report :: "page completion \<Rightarrow> page" where
  "report c = (case c of Throw e p \<Rightarrow> p\<lparr>console := console p @ [e]\<rparr> | _ \<Rightarrow> final_state c)"

definition dispatch :: "xhr \<Rightarrow> xhr_event \<Rightarrow> page \<Rightarrow> page" where
  "dispatch x e p = report (listener e x (p\<lparr>event_log := event_log p @ [e]\<rparr>))"

primrec dispatch_all :: "xhr \<Rightarrow> xhr_event list \<Rightarrow> page \<Rightarrow> page" where
  "dispatch_all x [] p = p"
| "dispatch_all x (e # es) p = dispatch_all x es (dispatch x e p)"

subsection \<open>The submit handler\<close>

definition submit_null_error :: js_error where
  "submit_null_error = TypeError ''Cannot read properties of null (reading remove)''"

text \<open>
  Lines 15--65.  \<open>len\<close> is the length of the multipart body the browser
  encodes from \<^verbatim>\<open>data\<close>.  The request object is created with its
  \<^verbatim>\<open>responseType\<close> and its listeners (lines 33--62), opened (line 63) and
  sent (line 64); sending fires its \<^verbatim>\<open>loadstart\<close> events at once.
\<close>

definition submit_handler :: "nat \<Rightarrow> page \<Rightarrow> page completion" where
  "submit_handler len p0 =
     (let p1 = p0\<lparr>event_canceled := True\<rparr>;
          data = ([] :: formdata);
          files = file_selection p1
      in if length files = 0 then Return (p1\<lparr>alerts := alerts p1 @ [alertText]\<rparr>)
      else
        let p2 = p1\<lparr>file_input_hidden := True\<rparr>
        in if \<not> submit_present p2 then Throw submit_null_error p2
        else
          let p3 = noSleep_enable (p2\<lparr>submit_present := False\<rparr>);
              data = append_files files 0 data;
              x0 = new_xhr\<lparr>response_type := ''text'', upload_listener := True\<rparr>;
              x1 = xhr_open ''POST'' (pathname p3) x0
          in case xhr_send data len x1 of
               Inl e \<Rightarrow> Throw e p3
             | Inr (x2, evs) \<Rightarrow>
                 Normal (dispatch_all x2 evs
                   (p3\<lparr>xhr_obj := Some x2, sent := sent p3 @ [(''POST'', pathname p3, data)]\<rparr>)))"

text \<open>The submit event: the listener runs, then the default action (leaving
  the page) happens unless the listener cancelled it.\<close>

definition user_submit :: "nat \<Rightarrow> page \<Rightarrow> page" where
  "user_submit len p =
     (let q = report (submit_handler len (p\<lparr>event_canceled := False\<rparr>))
      in if event_canceled q then q else q\<lparr>navigated := True\<rparr>)"

text \<open>A networking task of the browser on the page's request.\<close>

definition browser_task :: "task \<Rightarrow> page \<Rightarrow> page" where
  "browser_task tk p =
     (case xhr_obj p of
        None \<Rightarrow> p
      | Some x \<Rightarrow> (case run_task tk x of (x', evs) \<Rightarrow> dispatch_all x' evs (p\<lparr>xhr_obj := Some x'\<rparr>)))"

subsection \<open>The system\<close>

definition initial :: "string \<Rightarrow> ustring \<Rightarrow> page" where
  "initial path st =
     \<lparr>status_html = st, progress_value = 0, file_input_hidden = False, file_selection = [],
      submit_present = True, alerts = [], wake_enabled = False, wake_calls = [], sent = [],
      xhr_obj = None, console = [], event_canceled = False, navigated = False,
      pathname = path, event_log = []\<rparr>"

inductive step :: "page \<Rightarrow> page \<Rightarrow> bool" where
  select: "\<not> navigated p \<Longrightarrow> step p (p\<lparr>file_selection := fs\<rparr>)"
| submit: "\<not> navigated p \<Longrightarrow> 0 < len \<Longrightarrow> len \<le> 2 ^ 64 \<Longrightarrow> step p (user_submit len p)"
| task: "\<not> navigated p \<Longrightarrow> xhr_obj p = Some x \<Longrightarrow> task_enabled x tk \<Longrightarrow>
         step p (browser_task tk p)"

inductive reachable :: "page \<Rightarrow> bool" where
  init: "reachable (initial path st)"
| step: "reachable p \<Longrightarrow> step p q \<Longrightarrow> reachable q"

text \<open>The browser's part of the system alone: one networking task on the
  page's request.\<close>

inductive browser_step :: "page \<Rightarrow> page \<Rightarrow> bool" where
  run: "xhr_obj p = Some x \<Longrightarrow> task_enabled x tk \<Longrightarrow> browser_step p (browser_task tk p)"

subsection \<open>The invariant\<close>

text \<open>
  \<open>xhr_wf\<close> (theory \<open>Xhr\<close>) for the request object; \<open>phase_inv\<close>: what
  the page shows and what was asked of the wake
  lock in each phase of the request: while the body is being sent, after it
  is sent, after a response, after a failure.  \<open>sent_xhr\<close> is the request
  object right after \<^verbatim>\<open>send\<close>.
\<close>

definition phase_inv :: "xhr \<Rightarrow> page \<Rightarrow> bool" where
  "phase_inv x p \<longleftrightarrow>
     (wake_enabled p \<longleftrightarrow> \<not> upload_complete x) \<and>
     wake_calls p = Enable # (if upload_complete x then [Disable] else []) @
                    (if ready x = DONE \<and> \<not> response_error x then [Disable] else []) \<and>
     (\<not> upload_complete x \<longrightarrow>
        Num (progress_value p) = progress_ratio (transmitted x) (body_length x) \<and>
        status_html p = progress_text (formatted_percentage (Num (progress_value p)))) \<and>
     (upload_complete x \<and> ready x \<noteq> DONE \<longrightarrow>
        status_html p = progress_text (Num 100) \<and> progress_value p = 1) \<and>
     (ready x = DONE \<and> \<not> response_error x \<longrightarrow>
        status_html p = (if http_status x = 200 then successText else errorText)) \<and>
     (ready x = DONE \<and> response_error x \<longrightarrow>
        status_html p = errorText \<or> status_html p = progress_text (Num 100))"

definition upload_inv :: "page \<Rightarrow> bool" where
  "upload_inv p \<longleftrightarrow> \<not> navigated p \<and> set (console p) \<subseteq> {submit_null_error} \<and>
     (case xhr_obj p of
        None \<Rightarrow> sent p = [] \<and> submit_present p \<and> \<not> wake_enabled p \<and> wake_calls p = [] \<and>
          progress_value p = 0
      | Some x \<Rightarrow> xhr_wf x \<and> \<not> submit_present p \<and>
          sent p = [(req_method x, req_url x, req_body x)] \<and> phase_inv x p)"

definition sent_xhr :: "formdata \<Rightarrow> nat \<Rightarrow> string \<Rightarrow> xhr" where
  "sent_xhr data len path =
     (xhr_open ''POST'' path (new_xhr\<lparr>response_type := ''text'', upload_listener := True\<rparr>))
       \<lparr>req_body := data, body_length := len, upload_complete := False, send_flag := True,
        transmitted := 0\<rparr>"

subsection \<open>Dispatch and task lemmas\<close>

lemmas listener_defs = upload_progress_listener_def upload_loadstart_listener_def
  upload_load_listener_def upload_abort_listener_def upload_error_listener_def
  request_load_listener_def

lemma formatted_percentage_0 [simp]: "formatted_percentage (Num 0) = Num 0"
  using formatted_percentage_Num [of 0] by (simp add: fl_def)

lemma formatted_percentage_1 [simp]: "formatted_percentage (Num 1) = Num 100"
  using formatted_percentage_Num [of 1] by simp

lemma progress_ratio_0: "0 < t \<Longrightarrow> t \<le> 2 ^ 64 \<Longrightarrow> progress_ratio 0 t = Num 0"
  using progress_ratio_Num [of t 0] by (simp add: fl_def)

lemma dispatch_upload_progress:
  "progress_ratio l t = Num r \<Longrightarrow> dispatch x (Ev Upload Progress l t) p =
     p\<lparr>event_log := event_log p @ [Ev Upload Progress l t],
       status_html := progress_text (formatted_percentage (Num r)), progress_value := r\<rparr>"
  by (simp add: dispatch_def report_def listener_defs updateProgress_Num)

lemma dispatch_upload_loadstart:
  "dispatch x (Ev Upload LoadStart l t) p =
     p\<lparr>event_log := event_log p @ [Ev Upload LoadStart l t],
       status_html := progress_text (Num 0), progress_value := 0\<rparr>"
  by (simp add: dispatch_def report_def listener_defs updateProgress_Num)

lemma dispatch_upload_load:
  "dispatch x (Ev Upload Load l t) p =
     p\<lparr>event_log := event_log p @ [Ev Upload Load l t],
       status_html := progress_text (Num 100), progress_value := 1,
       wake_enabled := False, wake_calls := wake_calls p @ [Disable]\<rparr>"
  by (simp add: dispatch_def report_def listener_defs updateProgress_Num noSleep_disable_def)

lemma dispatch_upload_failure:
  "ev = Error \<or> ev = Abort \<Longrightarrow> dispatch x (Ev Upload ev l t) p =
     p\<lparr>event_log := event_log p @ [Ev Upload ev l t], status_html := errorText,
       wake_enabled := False, wake_calls := wake_calls p @ [Disable]\<rparr>"
  by (auto simp: dispatch_def report_def listener_defs noSleep_disable_def updateStatus_def)

lemma dispatch_request_load:
  "dispatch x (Ev Request Load l t) p =
     (if ready x = DONE
      then p\<lparr>event_log := event_log p @ [Ev Request Load l t],
             status_html := (if http_status x = 200 then successText else errorText),
             wake_enabled := False, wake_calls := wake_calls p @ [Disable]\<rparr>
      else p\<lparr>event_log := event_log p @ [Ev Request Load l t]\<rparr>)"
  by (simp add: dispatch_def report_def listener_defs noSleep_disable_def updateStatus_def)

lemma dispatch_silent:
  "ev \<noteq> Load \<Longrightarrow> dispatch x (Ev Request ev l t) p = p\<lparr>event_log := event_log p @ [Ev Request ev l t]\<rparr>"
  "dispatch x (Ev Upload LoadEnd l t) p = p\<lparr>event_log := event_log p @ [Ev Upload LoadEnd l t]\<rparr>"
  by (cases ev; simp add: dispatch_def report_def)+

subsection \<open>Preservation of the invariant\<close>

lemma phase_inv_frame [simp]:
  "phase_inv x (p\<lparr>file_selection := fs\<rparr>) = phase_inv x p"
  "phase_inv x (p\<lparr>alerts := al\<rparr>) = phase_inv x p"
  "phase_inv x (p\<lparr>event_canceled := b\<rparr>) = phase_inv x p"
  "phase_inv x (p\<lparr>file_input_hidden := b\<rparr>) = phase_inv x p"
  "phase_inv x (p\<lparr>console := c\<rparr>) = phase_inv x p"
  by (simp_all add: phase_inv_def)

lemmas inv_defs = upload_inv_def xhr_wf_def phase_inv_def browser_task_def

lemma inv_BodyProgress:
  assumes "upload_inv p" "xhr_obj p = Some x" "task_enabled x (BodyProgress n)"
  shows "upload_inv (browser_task (BodyProgress n) p)"
proof -
  obtain r where r: "progress_ratio n (body_length x) = Num r"
    using assms progress_ratio_Num [of "body_length x" n] by (auto simp: inv_defs)
  show ?thesis using assms r by (simp add: inv_defs dispatch_upload_progress)
qed

lemma inv_BodyEnd:
  assumes "upload_inv p" "xhr_obj p = Some x" "task_enabled x BodyEnd"
  shows "upload_inv (browser_task BodyEnd p)"
proof -
  have r: "progress_ratio (body_length x) (body_length x) = Num 1"
    using assms progress_ratio_full [of "body_length x"] by (auto simp: inv_defs)
  show ?thesis using assms r
    by (simp add: inv_defs dispatch_upload_progress dispatch_upload_load dispatch_silent)
qed

lemma inv_ResponseHeaders:
  "upload_inv p \<Longrightarrow> xhr_obj p = Some x \<Longrightarrow> task_enabled x (ResponseHeaders st) \<Longrightarrow>
   upload_inv (browser_task (ResponseHeaders st) p)"
  by (simp add: inv_defs dispatch_silent)

lemma inv_ResponseBody:
  "upload_inv p \<Longrightarrow> xhr_obj p = Some x \<Longrightarrow> task_enabled x (ResponseBody n) \<Longrightarrow>
   upload_inv (browser_task (ResponseBody n) p)"
  by (auto simp: inv_defs dispatch_silent)

lemma inv_ResponseEnd:
  "upload_inv p \<Longrightarrow> xhr_obj p = Some x \<Longrightarrow> task_enabled x (ResponseEnd rx) \<Longrightarrow>
   upload_inv (browser_task (ResponseEnd rx) p)"
  by (auto simp: inv_defs dispatch_silent dispatch_request_load)

lemma inv_request_error:
  "upload_inv p \<Longrightarrow> xhr_obj p = Some x \<Longrightarrow> send_flag x \<Longrightarrow> tk = NetworkError \<or> tk = FetchAbort \<Longrightarrow>
   upload_inv (browser_task tk p)"
  by (auto simp: inv_defs request_error_def dispatch_silent dispatch_upload_failure)

lemma inv_task:
  assumes "upload_inv p" "xhr_obj p = Some x" "task_enabled x tk"
  shows "upload_inv (browser_task tk p)"
  using assms
proof (cases tk)
  case (BodyProgress n) with assms show ?thesis by (simp add: inv_BodyProgress)
next
  case BodyEnd with assms show ?thesis by (simp add: inv_BodyEnd)
next
  case (ResponseHeaders st) with assms show ?thesis by (simp add: inv_ResponseHeaders)
next
  case (ResponseBody n) with assms show ?thesis by (simp add: inv_ResponseBody)
next
  case (ResponseEnd rx) with assms show ?thesis by (simp add: inv_ResponseEnd)
next
  case NetworkError with assms show ?thesis by (auto intro: inv_request_error)
next
  case FetchAbort with assms show ?thesis by (auto intro: inv_request_error)
qed

lemma submit_handler_empty:
  "file_selection p = [] \<Longrightarrow>
   submit_handler len p = Return (p\<lparr>event_canceled := True, alerts := alerts p @ [alertText]\<rparr>)"
  by (simp add: submit_handler_def)

lemma submit_handler_no_control:
  "file_selection p \<noteq> [] \<Longrightarrow> \<not> submit_present p \<Longrightarrow>
   submit_handler len p = Throw submit_null_error (p\<lparr>event_canceled := True, file_input_hidden := True\<rparr>)"
  by (simp add: submit_handler_def)

lemma submit_handler_send:
  assumes "file_selection p \<noteq> []" "submit_present p"
  defines "data \<equiv> map (Pair ''file'') (file_selection p)"
  shows "submit_handler len p = Normal
    (p\<lparr>event_canceled := True, file_input_hidden := True, submit_present := False,
       wake_enabled := True, wake_calls := wake_calls p @ [Enable],
       xhr_obj := Some (sent_xhr data len (pathname p)),
       sent := sent p @ [(''POST'', pathname p, data)],
       event_log := event_log p @ [Ev Request LoadStart 0 0, Ev Upload LoadStart 0 len],
       status_html := progress_text (Num 0), progress_value := 0\<rparr>)"
  using assms unfolding data_def
  by (simp add: submit_handler_def Let_def noSleep_enable_def append_files_drop xhr_send_def xhr_open_def
      new_xhr_def sent_xhr_def dispatch_silent dispatch_upload_loadstart)

lemma user_submit_cases:
  "user_submit len p = report (submit_handler len (p\<lparr>event_canceled := False\<rparr>))"
proof -
  have "event_canceled (report (submit_handler len (p\<lparr>event_canceled := False\<rparr>)))"
    by (cases "file_selection p = []"; cases "submit_present p")
       (simp_all add: submit_handler_empty submit_handler_no_control submit_handler_send report_def)
  then show ?thesis by (simp add: user_submit_def Let_def)
qed

lemma inv_submit:
  assumes "upload_inv p" "0 < len" "len \<le> 2 ^ 64"
  shows "upload_inv (user_submit len p)"
proof (cases "file_selection p = []")
  case True
  with assms show ?thesis
    by (simp add: user_submit_cases submit_handler_empty report_def upload_inv_def
        split: option.splits)
next
  case False
  show ?thesis
  proof (cases "xhr_obj p")
    case None
    with assms have "submit_present p" by (simp add: upload_inv_def)
    with None False assms show ?thesis
      by (simp add: user_submit_cases submit_handler_send report_def inv_defs sent_xhr_def
          xhr_open_def new_xhr_def progress_ratio_0)
  next
    case (Some x)
    with assms have "\<not> submit_present p" by (simp add: upload_inv_def)
    with Some False assms show ?thesis
      by (auto simp: user_submit_cases submit_handler_no_control report_def upload_inv_def)
  qed
qed

lemma inv_initial: "upload_inv (initial path st)"
  by (simp add: initial_def upload_inv_def)

lemma inv_step: "step p q \<Longrightarrow> upload_inv p \<Longrightarrow> upload_inv q"
proof (induction rule: step.induct)
  case (select p fs) then show ?case by (simp add: upload_inv_def split: option.splits)
next
  case (submit p len) then show ?case by (simp add: inv_submit)
next
  case (task p x tk) then show ?case by (simp add: inv_task)
qed

lemma reachable_inv: "reachable p \<Longrightarrow> upload_inv p"
  by (induction rule: reachable.induct) (auto intro: inv_initial inv_step)

subsection \<open>Frame lemmas\<close>

lemma dispatch_frame:
  "xhr_obj (dispatch x e p) = xhr_obj p \<and> navigated (dispatch x e p) = navigated p
   \<and> sent (dispatch x e p) = sent p"
proof (cases e)
  case (Ev tg ty l t)
  then show ?thesis
    by (cases tg; cases ty)
       (auto simp: dispatch_def report_def listener_defs updateProgress_def set_progress_value_def
         updateStatus_def noSleep_disable_def seq_def split: jsnum.splits completion.splits)
qed

lemma dispatch_all_frame:
  "xhr_obj (dispatch_all x es p) = xhr_obj p \<and> navigated (dispatch_all x es p) = navigated p
   \<and> sent (dispatch_all x es p) = sent p"
  by (induction es arbitrary: p) (simp_all add: dispatch_frame)

lemma browser_task_xhr:
  "xhr_obj p = Some x \<Longrightarrow>
   xhr_obj (browser_task tk p) = Some (fst (run_task tk x)) \<and>
   navigated (browser_task tk p) = navigated p \<and> sent (browser_task tk p) = sent p"
  by (simp add: browser_task_def dispatch_all_frame split: prod.splits)

lemma submit_xhr:
  assumes "file_selection p \<noteq> []" "submit_present p"
  shows "xhr_obj (user_submit len p) = Some (sent_xhr (map (Pair ''file'') (file_selection p)) len (pathname p))
    \<and> \<not> navigated (user_submit len p) \<longleftrightarrow> \<not> navigated p"
  using assms by (simp add: user_submit_cases submit_handler_send report_def)

subsection \<open>Properties of the controller\<close>

text \<open>C1. At most one request is ever sent from the page.\<close>

theorem single_request: "reachable p \<Longrightarrow> length (sent p) \<le> 1"
  by (drule reachable_inv) (auto simp: upload_inv_def split: option.splits)

text \<open>C2. Submitting with no file selected shows the alert and changes nothing
  else: no request, no wake lock, no navigation.\<close>

theorem submit_empty_selection:
  "file_selection p = [] \<Longrightarrow>
   user_submit len p = p\<lparr>event_canceled := True, alerts := alerts p @ [alertText]\<rparr>"
  by (simp add: user_submit_cases submit_handler_empty report_def)

text \<open>C3. Submitting \<open>N \<ge> 1\<close> files with the submit control present sends one
  POST to the page's path whose body has exactly the \<open>N\<close> entries \<^verbatim>\<open>file\<close>, in
  order; the wake lock is enabled once, the input hidden, the control
  removed, the status at 0 per cent, and the page is not left.\<close>

theorem submit_sends_request:
  fixes len :: nat
  assumes "file_selection p \<noteq> []" "submit_present p"
  defines "q \<equiv> user_submit len p"
  shows "sent q = sent p @ [(''POST'', pathname p, map (\<lambda>f. (''file'', f)) (file_selection p))]
    \<and> length (snd (snd (last (sent q)))) = length (file_selection p)
    \<and> wake_calls q = wake_calls p @ [Enable] \<and> wake_enabled q
    \<and> \<not> submit_present q \<and> file_input_hidden q \<and> navigated q = navigated p
    \<and> status_html q = progress_text (Num 0) \<and> progress_value q = 0"
  using assms by (simp add: user_submit_cases submit_handler_send report_def)

text \<open>C4. The wake lock is held exactly while the request body is being sent.\<close>

theorem wake_lock_iff_uploading:
  "reachable p \<Longrightarrow> wake_enabled p \<longleftrightarrow> (\<exists>x. xhr_obj p = Some x \<and> \<not> upload_complete x)"
  by (drule reachable_inv) (auto simp: upload_inv_def phase_inv_def split: option.splits)

text \<open>C5. Once the request is done, by any outcome, the wake lock is released.\<close>

theorem done_releases_wake_lock:
  "reachable p \<Longrightarrow> xhr_obj p = Some x \<Longrightarrow> ready x = DONE \<Longrightarrow> \<not> wake_enabled p"
  by (drule reachable_inv) (simp add: upload_inv_def phase_inv_def xhr_wf_def)

text \<open>C6. When a response has been received, \<^verbatim>\<open>noSleep.disable()\<close> has been
  called twice: once by the upload's \<^verbatim>\<open>load\<close> listener and once by the
  request's \<^verbatim>\<open>load\<close> listener.\<close>

theorem response_disables_twice:
  "reachable p \<Longrightarrow> xhr_obj p = Some x \<Longrightarrow> ready x = DONE \<Longrightarrow> \<not> response_error x \<Longrightarrow>
   wake_calls p = [Enable, Disable, Disable]"
  by (drule reachable_inv) (simp add: upload_inv_def phase_inv_def xhr_wf_def)

text \<open>C7. After a response, the status is the success message with the link to
  \<^verbatim>\<open>/\<close> if the status code is 200, and the failure message otherwise.\<close>

theorem response_status_message:
  "reachable p \<Longrightarrow> xhr_obj p = Some x \<Longrightarrow> ready x = DONE \<Longrightarrow> \<not> response_error x \<Longrightarrow>
   status_html p = (if http_status x = 200 then successText else errorText)"
  by (drule reachable_inv) (simp add: upload_inv_def phase_inv_def)

text \<open>C8. A completed response with a status other than 200 renders the same
  message as an upload error or abort.\<close>

theorem failure_messages_identical:
  "ready x = DONE \<Longrightarrow> http_status x \<noteq> 200 \<Longrightarrow>
   status_html (final_state (request_load_listener x p)) = status_html (final_state (upload_error_listener p))
   \<and> status_html (final_state (upload_error_listener p)) = status_html (final_state (upload_abort_listener p))
   \<and> status_html (final_state (upload_error_listener p)) = errorText"
  by (simp add: listener_defs noSleep_disable_def updateStatus_def)

text \<open>C9. A network failure after the body has been sent leaves the status at
  \<open>100% done\<close>: no listener of the script hears the request's \<^verbatim>\<open>error\<close>
  event, so the failure is never shown.\<close>

theorem error_after_upload_keeps_progress:
  assumes "reachable p" "xhr_obj p = Some x" "upload_complete x" "send_flag x"
  shows "status_html (browser_task NetworkError p) = progress_text (Num 100)
    \<and> (\<exists>x'. xhr_obj (browser_task NetworkError p) = Some x' \<and> ready x' = DONE)"
proof -
  have "upload_inv p" using assms(1) by (rule reachable_inv)
  with assms(2-4) have "status_html p = progress_text (Num 100)"
    by (simp add: upload_inv_def phase_inv_def xhr_wf_def)
  with assms(2,3) show ?thesis
    by (simp add: browser_task_def request_error_def dispatch_silent)
qed

text \<open>C10. Submitting again once the submit control is gone throws a
  \<^verbatim>\<open>TypeError\<close> at line 26, before the wake lock or the network is touched.\<close>

theorem second_submit_throws:
  "file_selection p \<noteq> [] \<Longrightarrow> \<not> submit_present p \<Longrightarrow>
   user_submit len p = p\<lparr>event_canceled := True, file_input_hidden := True,
                         console := console p @ [submit_null_error]\<rparr>"
  by (simp add: user_submit_cases submit_handler_no_control report_def)

text \<open>C11. The page never navigates away: every submission is cancelled.\<close>

theorem never_navigates: "reachable p \<Longrightarrow> \<not> navigated p"
  by (drule reachable_inv) (simp add: upload_inv_def)

text \<open>C12. No transport listener ever throws: the only exception reported is
  the one of a repeated submission.\<close>

theorem no_listener_exception: "reachable p \<Longrightarrow> set (console p) \<subseteq> {submit_null_error}"
  by (drule reachable_inv) (simp add: upload_inv_def)

text \<open>C13. The request's \<^verbatim>\<open>load\<close> event is only fired when the request is
  done, so the \<^verbatim>\<open>readyState === DONE\<close> test of line 54 always holds and the
  listener always updates the status and releases the lock.\<close>

theorem request_load_sees_done:
  assumes "task_enabled x tk" "Ev Request Load l t \<in> set (snd (run_task tk x))"
  shows "ready (fst (run_task tk x)) = DONE \<and>
    request_load_listener (fst (run_task tk x)) p =
      Normal (noSleep_disable (updateStatus
        (if http_status (fst (run_task tk x)) = 200 then successText else errorText) p))"
  using assms by (cases tk) (auto simp: request_error_def request_load_listener_def)

text \<open>The upload's \<^verbatim>\<open>loadstart\<close> listener renders \<open>0% done\<close> and sets the
  indicator to 0, whatever the page showed before.\<close>

lemma loadstart_resets_progress:
  "upload_loadstart_listener p =
     Normal (p\<lparr>status_html := [8987] @ ustr '' Uploading'' @ [8230, 32] @ ustr ''0% done'',
               progress_value := 0\<rparr>)"
proof -
  have "number_to_string (Num 0) = ustr ''0''" by code_simp
  then show ?thesis
    by (simp add: upload_loadstart_listener_def updateProgress_Num progress_text_def)
qed


subsection \<open>Progress, termination and liveness\<close>

lemma progress_task_value:
  assumes "upload_inv p" "xhr_obj p = Some x" "task_enabled x tk"
  shows "progress_value (browser_task tk p) = (case tk of
    BodyProgress n \<Rightarrow> fl (fl (of_nat n) / fl (of_nat (body_length x))) | BodyEnd \<Rightarrow> 1
    | _ \<Rightarrow> progress_value p)"
proof (cases tk)
  case (BodyProgress n)
  from assms BodyProgress have w: "0 < body_length x" "body_length x \<le> 2 ^ 64"
    "n \<le> body_length x" "upload_listener x"
    by (simp_all add: upload_inv_def xhr_wf_def)
  with assms(2) BodyProgress progress_ratio_Num [OF w(1-3)] show ?thesis
    by (simp add: browser_task_def dispatch_upload_progress)
next
  case BodyEnd
  from assms BodyEnd have w: "0 < body_length x" "body_length x \<le> 2 ^ 64" "upload_listener x"
    by (simp_all add: upload_inv_def xhr_wf_def)
  with assms(2) BodyEnd progress_ratio_full [OF w(1,2)] show ?thesis
    by (simp add: browser_task_def dispatch_upload_progress dispatch_upload_load dispatch_silent)
qed (use assms in \<open>auto simp: browser_task_def request_error_def dispatch_silent
      dispatch_upload_failure dispatch_request_load\<close>)

lemma progress_uploading:
  assumes "upload_inv p" "xhr_obj p = Some x" "\<not> upload_complete x"
  shows "progress_value p = fl (fl (of_nat (transmitted x)) / fl (of_nat (body_length x)))
    \<and> 0 < body_length x \<and> body_length x \<le> 2 ^ 64 \<and> transmitted x \<le> body_length x"
proof -
  from assms have w: "0 < body_length x" "body_length x \<le> 2 ^ 64" "transmitted x \<le> body_length x"
    by (simp_all add: upload_inv_def xhr_wf_def)
  with assms have "Num (progress_value p) = progress_ratio (transmitted x) (body_length x)"
    by (simp add: upload_inv_def phase_inv_def)
  with progress_ratio_Num [OF w] w show ?thesis by simp
qed

lemma progress_task:
  assumes "upload_inv p" "xhr_obj p = Some x" "task_enabled x tk"
  shows "progress_value p \<le> progress_value (browser_task tk p)"
proof (cases tk)
  case (BodyProgress n)
  with assms have "\<not> upload_complete x" "transmitted x < n" "n \<le> body_length x" by simp_all
  with progress_uploading [OF assms(1,2)] progress_task_value [OF assms] BodyProgress
    progress_ratio_mono [of "body_length x" "transmitted x" n] show ?thesis by simp
next
  case BodyEnd
  with assms have "\<not> upload_complete x" by simp
  with progress_uploading [OF assms(1,2)] progress_task_value [OF assms] BodyEnd
    progress_ratio_Num [of "body_length x" "transmitted x"] show ?thesis by simp
qed (use progress_task_value [OF assms] in simp_all)

lemma progress_task_bounded:
  assumes "upload_inv p" "xhr_obj p = Some x" "task_enabled x tk" "progress_value p \<le> 1"
  shows "progress_value (browser_task tk p) \<le> 1"
proof (cases tk)
  case (BodyProgress n)
  with assms have "\<not> upload_complete x" "n \<le> body_length x" by simp_all
  with progress_uploading [OF assms(1,2)] progress_task_value [OF assms(1-3)] BodyProgress
    progress_ratio_Num [of "body_length x" n] show ?thesis by simp
qed (use progress_task_value [OF assms(1-3)] assms(4) in simp_all)

lemma progress_submit_value:
  assumes "upload_inv p"
  shows "progress_value (user_submit len p) =
    (if file_selection p \<noteq> [] \<and> xhr_obj p = None then 0 else progress_value p)"
proof (cases "file_selection p = []")
  case True
  then show ?thesis by (simp add: user_submit_cases submit_handler_empty report_def)
next
  case False
  show ?thesis
  proof (cases "xhr_obj p")
    case None
    with assms have "submit_present p" by (simp add: upload_inv_def)
    with False None show ?thesis by (simp add: user_submit_cases submit_handler_send report_def)
  next
    case (Some x)
    with assms have "\<not> submit_present p" by (simp add: upload_inv_def)
    with False Some show ?thesis by (simp add: user_submit_cases submit_handler_no_control report_def)
  qed
qed

lemma progress_submit:
  assumes "upload_inv p" shows "progress_value p \<le> progress_value (user_submit len p)"
  using assms progress_submit_value [OF assms] by (auto simp: upload_inv_def)

lemma progress_bounded:
  "reachable p \<Longrightarrow> 0 \<le> progress_value p \<and> progress_value p \<le> 1"
proof (induction rule: reachable.induct)
  case (init path st) then show ?case by (simp add: initial_def)
next
  case (step p q)
  have inv: "upload_inv p" using step.hyps(1) by (rule reachable_inv)
  from step.hyps(2) show ?case
  proof cases
    case (select fs) with step.IH show ?thesis by simp
  next
    case (submit len) with step.IH inv show ?thesis by (simp add: progress_submit_value)
  next
    case (task x tk)
    with step.IH inv progress_task [OF inv] progress_task_bounded [OF inv] show ?thesis
      by (meson order_trans)
  qed
qed

lemma browser_step_step: "upload_inv p \<Longrightarrow> browser_step p q \<Longrightarrow> step p q"
  by (auto simp: upload_inv_def elim!: browser_step.cases intro: step.task)

lemma browser_step_xhr:
  "browser_step p q \<Longrightarrow> \<exists>x tk. xhr_obj p = Some x \<and> task_enabled x tk \<and>
     xhr_obj q = Some (fst (run_task tk x))"
  by (auto elim!: browser_step.cases dest: browser_task_xhr)

text \<open>The browser's networking tasks on the page terminate: there is no
  infinite run of tasks, whatever the listeners do.\<close>

lemma browser_tasks_terminate: "wf {(q, p). browser_step p q}"
proof (rule wf_subset [OF wf_measure [of "\<lambda>p. case xhr_obj p of Some x \<Rightarrow> tasks_left x | None \<Rightarrow> 0"]])
  show "{(q, p). browser_step p q} \<subseteq>
    measure (\<lambda>p. case xhr_obj p of Some x \<Rightarrow> tasks_left x | None \<Rightarrow> 0)"
    by (auto dest!: browser_step_xhr tasks_left_run_task)
qed

text \<open>Liveness: from every reachable page with a request, the browser can
  bring the request to \<^verbatim>\<open>DONE\<close>, and the wake lock is then released.\<close>

lemma upload_can_finish:
  assumes "reachable p" "xhr_obj p = Some x"
  shows "\<exists>q y. browser_step\<^sup>*\<^sup>* p q \<and> reachable q \<and> xhr_obj q = Some y \<and> ready y = DONE
    \<and> \<not> wake_enabled q"
proof (cases "send_flag x")
  case True
  let ?q = "browser_task NetworkError p"
  have b: "browser_step p ?q" using assms(2) True by (auto intro: browser_step.run)
  have i: "upload_inv p" using assms(1) by (rule reachable_inv)
  have r: "reachable ?q" using assms(1) browser_step_step [OF i b] by (rule reachable.step)
  have x: "xhr_obj ?q = Some (fst (run_task NetworkError x))" using browser_task_xhr [OF assms(2)] by simp
  have "upload_inv ?q" using r by (rule reachable_inv)
  with x have "\<not> wake_enabled ?q" by (simp add: upload_inv_def phase_inv_def request_error_def)
  with b r x show ?thesis by (auto simp: request_error_def)
next
  case False
  have "upload_inv p" using assms(1) by (rule reachable_inv)
  with assms(2) False have "ready x = DONE" "\<not> wake_enabled p"
    by (simp_all add: upload_inv_def xhr_wf_def phase_inv_def)
  with assms show ?thesis by blast
qed

text \<open>A run of the browser's tasks ends only when the request is
  \<^verbatim>\<open>DONE\<close>: then the wake lock is released and the status shows the success
  message, the failure message, or, after a failure of the response,
  \<open>100% done\<close>.  With C29, every maximal run of tasks ends there.\<close>

lemma quiescent_request_done:
  assumes "reachable p" "xhr_obj p = Some x" "\<forall>tk. \<not> task_enabled x tk"
  shows "ready x = DONE \<and> \<not> wake_enabled p \<and>
    status_html p \<in> {successText, errorText, progress_text (Num 100)}"
proof -
  have "\<not> send_flag x" using spec [OF assms(3), of NetworkError] by simp
  moreover have "upload_inv p" using assms(1) by (rule reachable_inv)
  ultimately show ?thesis using assms(2)
    by (auto simp: upload_inv_def xhr_wf_def phase_inv_def split: if_splits)
qed

text \<open>C23. The progress indicator never moves backwards: no step of the page,
  by the user or the browser, lowers \<^verbatim>\<open>progress.value\<close>.\<close>

theorem progress_never_decreases:
  assumes "reachable p" "step p q" shows "progress_value p \<le> progress_value q"
  using assms(2)
proof cases
  case (select fs) then show ?thesis by simp
next
  case (submit len) then show ?thesis using reachable_inv [OF assms(1)] by (simp add: progress_submit)
next
  case (task x tk) then show ?thesis using reachable_inv [OF assms(1)] by (simp add: progress_task)
qed

text \<open>C26. The progress indicator always holds a fraction in [0, 1].\<close>

theorem progress_value_bounds: "reachable p \<Longrightarrow> 0 \<le> progress_value p \<and> progress_value p \<le> 1"
  by (rule progress_bounded)

text \<open>C27. At every terminal outcome the wake lock was enabled once; it was
  disabled once after a failure, and twice after a received response, where
  the specification asks for exactly once.\<close>

theorem terminal_wake_calls:
  assumes "reachable p" "xhr_obj p = Some x" "ready x = DONE"
  shows "count_list (wake_calls p) Enable = 1 \<and>
    count_list (wake_calls p) Disable = (if response_error x then 1 else 2)"
  using reachable_inv [OF assms(1)] assms(2,3)
  by (simp add: upload_inv_def phase_inv_def xhr_wf_def)

end
