(* ===== verification/Display.thy ===== *)
theory Display
  imports Upload
begin

text \<open>
  What the page can show and send over a whole run.  \<open>status_ok\<close> is the
  set of texts the \<^verbatim>\<open>#status\<close> element can hold once a request is sent: the
  progress text with an integer percentage between 0 and 100, the success
  message and the failure message.  \<open>ev_ok\<close> is the range of the progress
  events the browser fires for a body of at most \<open>2^64\<close> bytes.  The
  lemmas show that every listener keeps the status in that set.
\<close>

definition status_ok :: "ustring \<Rightarrow> bool" where
  "status_ok s \<longleftrightarrow> s = successText \<or> s = errorText \<or>
     (\<exists>k. 0 \<le> k \<and> k \<le> 100 \<and> s = progress_text (Num (of_int k)))"

fun ev_ok :: "xhr_event \<Rightarrow> bool" where
  "ev_ok (Ev Upload Progress l t) \<longleftrightarrow> 0 < t \<and> t \<le> 2 ^ 64 \<and> l \<le> t"
| "ev_ok e \<longleftrightarrow> True"

subsection \<open>Status lemmas\<close>

lemma status_ok_pct: "0 \<le> k \<Longrightarrow> k \<le> 100 \<Longrightarrow> status_ok (progress_text (Num (of_int k)))"
  unfolding status_ok_def by blast

lemma status_ok_progress:
  assumes "0 < t" "t \<le> 2 ^ 64" "l \<le> t" "progress_ratio l t = Num r"
  shows "status_ok (progress_text (formatted_percentage (Num r)))"
proof -
  from progress_ratio_Num [OF assms(1-3)] assms(4) have "0 \<le> r" "r \<le> 1" by simp_all
  note f = formatted_percentage_Num [OF this]
  from f have "status_ok (progress_text (Num (of_int \<lfloor>fl (100 * r)\<rfloor>)))"
    by (intro status_ok_pct) simp_all
  with f show ?thesis by simp
qed

lemma status_ok_error: "status_ok errorText"
  unfolding status_ok_def by (intro disjI2 disjI1 refl)

lemma status_ok_success: "status_ok successText"
  unfolding status_ok_def by (intro disjI1 refl)

lemma status_ok_zero: "status_ok (progress_text (Num 0))"
  using status_ok_pct [of 0] by simp

lemma status_ok_hundred: "status_ok (progress_text (Num 100))"
  using status_ok_pct [of 100] by simp

lemma dispatch_unheard: "listener e x = Normal \<Longrightarrow> status_html (dispatch x e p) = status_html p"
  by (simp add: dispatch_def report_def)

lemma dispatch_status:
  assumes "ev_ok e" "status_ok (status_html p)"
  shows "status_ok (status_html (dispatch x e p))"
proof (cases e)
  case (Ev tg ty l t)
  consider (prog) "tg = Upload" "ty = Progress" | (start) "tg = Upload" "ty = LoadStart"
    | (load) "tg = Upload" "ty = Load" | (fail) "tg = Upload" "ty = Error \<or> ty = Abort"
    | (rload) "tg = Request" "ty = Load" | (unheard) "listener e x = Normal"
    using Ev by (cases tg; cases ty) simp_all
  then show ?thesis
  proof cases
    case prog
    with assms Ev obtain r where "progress_ratio l t = Num r" "0 < t" "t \<le> 2 ^ 64" "l \<le> t"
      using progress_ratio_Num [of t l] by auto
    with prog Ev show ?thesis by (simp add: dispatch_upload_progress status_ok_progress)
  next
    case start with Ev show ?thesis by (simp add: dispatch_upload_loadstart status_ok_zero)
  next
    case load with Ev show ?thesis by (simp add: dispatch_upload_load status_ok_hundred)
  next
    case fail with Ev show ?thesis by (simp add: dispatch_upload_failure status_ok_error)
  next
    case rload with Ev assms(2) show ?thesis
      by (simp add: dispatch_request_load status_ok_error status_ok_success)
  next
    case unheard with assms(2) show ?thesis by (simp add: dispatch_unheard)
  qed
qed

lemma dispatch_all_status:
  "list_all ev_ok es \<Longrightarrow> status_ok (status_html p) \<Longrightarrow>
   status_ok (status_html (dispatch_all x es p))"
  by (induction es arbitrary: p) (simp_all add: dispatch_status)

lemma run_task_ev_ok: "xhr_wf x \<Longrightarrow> task_enabled x tk \<Longrightarrow> list_all ev_ok (snd (run_task tk x))"
  by (cases tk) (auto simp: xhr_wf_def request_error_def)

lemma status_step:
  assumes "upload_inv p" "step p q" "xhr_obj p \<noteq> None \<longrightarrow> status_ok (status_html p)"
  shows "xhr_obj q \<noteq> None \<longrightarrow> status_ok (status_html q)"
  using assms(2)
proof cases
  case (select fs) with assms(3) show ?thesis by simp
next
  case (submit len)
  show ?thesis
  proof (cases "file_selection p \<noteq> [] \<and> xhr_obj p = None")
    case True
    with assms(1) have "submit_present p" by (simp add: upload_inv_def)
    with True submit show ?thesis
      by (simp add: user_submit_cases submit_handler_send report_def status_ok_zero)
  next
    case False
    show ?thesis
    proof (cases "file_selection p = []")
      case True
      with assms(3) submit show ?thesis
        by (simp add: user_submit_cases submit_handler_empty report_def)
    next
      case nonempty: False
      with False obtain x where x: "xhr_obj p = Some x" by auto
      with assms(1) have "\<not> submit_present p" by (simp add: upload_inv_def)
      with nonempty x assms(3) submit show ?thesis
        by (simp add: user_submit_cases submit_handler_no_control report_def)
    qed
  qed
next
  case (task x tk)
  with assms(1) have "list_all ev_ok (snd (run_task tk x))"
    by (simp add: upload_inv_def run_task_ev_ok)
  with task assms(3) show ?thesis
    by (simp add: browser_task_def dispatch_all_status split: prod.splits)
qed

lemma status_reachable:
  "reachable p \<Longrightarrow> xhr_obj p \<noteq> None \<longrightarrow> status_ok (status_html p)"
proof (induction rule: reachable.induct)
  case (init path st) then show ?case by (simp add: initial_def)
next
  case (step p q)
  have inv: "upload_inv p" using step.hyps(1) by (rule reachable_inv)
  from status_step [OF inv step.hyps(2) step.IH] show ?case .
qed

subsection \<open>Properties of the display\<close>

text \<open>C28. Once the request is sent, the status element shows
  \<open>k% done\<close> for an integer \<open>k\<close> between 0 and 100, the success message or
  the failure message, and nothing else.\<close>

theorem status_text_range:
  "reachable p \<Longrightarrow> xhr_obj p \<noteq> None \<Longrightarrow> status_ok (status_html p)"
  using status_reachable by blast

end
