(* ===== verification/Spec2Isabelle.thy ===== *)
theory Spec2Isabelle
  imports Display
begin

text \<open>
  \<^bold>\<open>A verification of \<^verbatim>\<open>src/resources/public/upload.js\<close>.\<close>

  The script is the client side of a file-sharing page.  On submission of
  the page's form it cancels the navigation, checks that files are selected
  (else it alerts and returns), hides the file input, removes the submit
  control, enables a NoSleep wake lock, builds a \<^verbatim>\<open>FormData\<close> with one entry
  \<^verbatim>\<open>file\<close> per selected file, and sends it with one asynchronous
  \<^verbatim>\<open>XMLHttpRequest\<close> POST to the page's own path.  Six listeners on the request
  turn its lifecycle into the \<^verbatim>\<open>#status\<close> text and the \<^verbatim>\<open>progress\<close> bar and
  release the wake lock.  The parts and the theories that model them:

  \<^item> \<open>Prelude\<close>: strings as code-point lists (\<open>ustring\<close>, \<open>ustr\<close>), the
    completion records of statements (\<open>Normal\<close>, \<open>Return\<close>, \<open>Throw\<close>) and
    their composition \<open>seq\<close>, facts on powers of two.
  \<^item> \<open>Binary64\<close>: the JavaScript numbers the script computes with.
    \<open>fl\<close> rounds an exact rational to the nearest binary64 value, ties to even,
    with 53 significant bits and the subnormal quantum \<open>2 powi -1074\<close>;
    \<open>to_num\<close> adds overflow; \<open>js_div\<close>, \<open>js_mul\<close>, \<open>js_floor\<close> are
    \<^verbatim>\<open>/\<close>, \<^verbatim>\<open>*\<close> and \<^verbatim>\<open>Math.floor\<close> with NaN and the infinities;
    Lemmas: \<open>fl\<close> is monotone (\<open>fl_mono\<close>), exact on integers below
    \<open>2^53\<close> and on powers of two.  The abstract specification
    \<open>binary64_grid\<close> is the set of doubles \<open>m * 2 powi e\<close> (\<open>|m| \<le> 2^53\<close>,
    \<open>e \<ge> -1074\<close>); \<open>fl_nearest\<close> refines it: \<open>fl x\<close> is on the grid and
    no grid point is nearer to \<open>x\<close> (via \<open>round_even_nearest\<close> and the
    case split on the quantum in \<open>round_pos_nearest\<close>); on a tie the even
    significand is chosen (\<open>fl_tie_even\<close>).
  \<^item> \<open>NumberString\<close>: the conversion of the template literal of line 10,
    modelled from ECMAScript.  \<open>number_to_string\<close> is Number::toString
    for every double: the shortest digits \<open>s\<close> (\<open>k\<close> of them) and exponent
    \<open>n\<close> whose value rounds back to the number (\<open>shortest_digits\<close> tries
    \<open>k = 1, 2, ...\<close> with the fuel \<open>ilog10 x + 1075\<close>, which suffices because
    every double is an integer multiple of \<open>10 powi -1074\<close>: \<open>pos_digits\<close>),
    printed in one of the four formats of the standard (\<open>format_decimal\<close>).
    \<open>string_to_number\<close> is StringToNumber, the reading of a numeric string.
    A lemma (\<open>number_to_string_roundtrip\<close>) shows that the printed
    string always reads back as the double printed, via the bounds of
    \<open>ilog10\<close>, the digit count of the chosen \<open>s\<close> (\<open>pick_digits_Some\<close>)
    and the value of each format (\<open>format_decimal_value\<close>).  The digits
    refine step 5 of the standard: no value with fewer significant digits
    rounds to the number (\<open>shortest_digits_least\<close>, from
    \<open>no_shorter_digits\<close>).  An integer
    below \<open>2^53\<close>, such as the percentage of line 10, prints as its plain
    decimal digits (\<open>number_to_string_int\<close>).
  \<^item> \<open>FormData\<close>: the payload and the \<^verbatim>\<open>for\<close> loop of lines 29--31
    (\<open>append_files\<close>, a \<^theory_text>\<open>function\<close> with its index and a measure),
    equal to a \<open>map\<close> over the selection.
  \<^item> \<open>Xhr\<close>: the browser's request object, modelled from the XMLHttpRequest
    standard as the environment: \<open>xhr_open\<close>, \<open>xhr_send\<close> (which fires the
    \<^verbatim>\<open>loadstart\<close> events synchronously), and the networking tasks
    (\<open>task\<close>, \<open>task_enabled\<close>, \<open>run_task\<close>, \<open>request_error\<close>), each
    returning the updated object and the events it fires.  The event datatype
    \<open>xhr_event\<close> is the interface between the browser and the script.
    \<open>xhr_wf\<close> is the well-formedness of a sent request, preserved by every
    enabled task (\<open>xhr_wf_run_task\<close>); \<open>tasks_left\<close> is a measure that
    every enabled task decreases.  These are lemmas about the environment,
    not claims about the script: they show that the model of the browser
    is a sensible one (its lifecycle terminates, \<open>xhr_tasks_terminate\<close>,
    and a sequence of tasks is at most \<open>len + 2^64 + 3\<close> long for a body
    of \<open>len\<close> bytes).  The \<^verbatim>\<open>readystatechange\<close> event that \<^verbatim>\<open>open()\<close>
    fires is not modelled: the script registers no listener for it and
    attaches its listeners after the call.
  \<^item> \<open>Page\<close>: the page state (\<open>page\<close>: status text, progress value, file
    input, submit control, alerts, wake lock and its call log, requests sent,
    the request object, reported exceptions, event log) and lines 1--12:
    \<open>errorText\<close>, \<open>updateStatus\<close>, \<open>updateProgress\<close> with
    \<open>formatted_percentage\<close> and the \<^verbatim>\<open>progress.value\<close> setter that throws on
    a non-finite value, and \<open>progress_ratio\<close> (\<^verbatim>\<open>e.loaded / e.total\<close>).
    Lemmas: the percentage shown is an integer in [0, 100], monotone in the
    bytes sent, exactly 100 at the end; every progress event renders the
    decimal digits of that integer (\<open>progress_message\<close>); the spec's
    example 50/200.  The binary64 percentage differs from the exact
    \<open>floor (100 * loaded / total)\<close> of the spec by at most one
    (\<open>percentage_within_one\<close>, from the relative error \<open>fl_rel\<close> of the
    rounding, at most \<open>2 powi -53\<close>), and the deviation occurs: 29 of 100
    bytes shows 28.
  \<^item> \<open>Upload\<close>: the submit handler (\<open>submit_handler\<close>, lines 15--65), the
    submit event with its default action (\<open>user_submit\<close>), the six
    listeners and their registration (\<open>listener\<close>), dispatch
    (\<open>dispatch\<close>, \<open>dispatch_all\<close>, \<open>report\<close>: an escaping exception is
    logged and dispatch continues), a browser task on the page
    (\<open>browser_task\<close>), and the system: \<open>step\<close> (the user selects files or
    submits; the browser runs an enabled task) and \<open>reachable\<close> from a fresh
    page \<open>initial\<close>.  The invariant \<open>upload_inv\<close> (with \<open>xhr_wf\<close> and
    \<open>phase_inv\<close>) is proved for every reachable state by rule induction
    (\<open>reachable_inv\<close>), one lemma per kind of step.  From it: at most one
    request; the wake lock is held exactly while the body is sent; it is
    released when the request is done; the status after a response; no
    listener throws; the page never navigates; the progress indicator never
    moves backwards (\<open>progress_never_decreases\<close>) and stays in [0, 1]
    (\<open>progress_value_bounds\<close>, from \<open>progress_task_value\<close> and
    \<open>progress_submit_value\<close>, the exact value after each step); at the end
    the wake lock has been disabled once after a failure and twice after a
    response (\<open>terminal_wake_calls\<close>).  Functional lemmas
    describe each branch of the submit handler, including the
    \<^verbatim>\<open>TypeError\<close> of a second submission.  \<open>browser_step\<close> is the
    browser's part of the system; lemmas about the environment show that
    its runs are finite (\<open>browser_tasks_terminate\<close>) and that some run
    ends the request with the wake lock released (\<open>upload_can_finish\<close>).
    The field \<open>event_log\<close> of the page records the events dispatched to
    the script, as an instrument of the model; no claim is made about it.
  \<^item> \<open>Display\<close>: what the page shows and sends over a run.  Every listener
    keeps the status among the texts \<open>status_ok\<close> (a percentage text with an
    integer in [0, 100], the success or the failure message) once a request
    is sent (\<open>status_text_range\<close>, via \<open>dispatch_status\<close> for each event in
    the range \<open>ev_ok\<close>).
  \<^item> This theory: two runs of the whole page (\<open>uploaded_run\<close>,
    \<open>success_run\<close>), the end-to-end theorem of a successful upload, and the
    witnesses of the theorems with hypotheses, evaluated on a concrete page.

  Findings the lemmas record: the wake lock is disabled twice on a received
  response (\<open>Upload.response_disables_twice\<close>); a network error or abort
  after the body was sent leaves the status at 100 per cent, because only the
  upload object's failure events have listeners
  (\<open>Upload.error_after_upload_keeps_progress\<close>); the \<^verbatim>\<open>readyState\<close> test of
  line 54 always holds (\<open>Upload.request_load_sees_done\<close>); binary64 shows 28
  for 29 of 100 bytes, one less than the spec's exact percentage
  (\<open>Page.percentage_within_one\<close>).  A zero total would give
  \<open>NaN% done\<close> and an exception (\<open>progress_zero_total\<close>), but no reachable
  event has it: the body is never empty.

  Bounds.  Byte counts are WebIDL \<^verbatim>\<open>unsigned long long\<close>, so the
  percentage lemmas assume a body of at most \<open>2^64\<close> bytes; below \<open>2^53\<close>
  bytes the counts convert exactly.  The step relation admits any body length
  \<open>0 < len \<le> 2^64\<close> (a multipart body is never empty) and any response status.
  No fuel is needed for the script: its only loop is the bounded
  \<^verbatim>\<open>for\<close> loop.  The one search with fuel is \<open>shortest_digits\<close>, whose
  fuel is shown sufficient (\<open>pos_digits\<close>).  A body chunk carries
  at least one byte, so a \<open>BodyProgress\<close> task always advances the bytes
  sent.

  Not modelled: the server (its status code is an input of the response
  task); the HTML page beyond the elements the script queries, which are
  assumed present; NoSleep's internals (only its enable/disable calls and
  state); the bytes of the response, which the script never reads (the
  response body is modelled by its chunk sizes, each chunk moving the request
  to \<^verbatim>\<open>LOADING\<close>, at most \<open>2^64\<close> bytes, so that the lifecycle still
  terminates); time-outs (none is set); signed zero (\<^verbatim>\<open>-0\<close> prints as
  \<^verbatim>\<open>0\<close>, and the script never computes it).
\<close>

section \<open>Runs of the whole page\<close>

definition uploaded_run :: "string \<Rightarrow> ustring \<Rightarrow> jsfile list \<Rightarrow> nat \<Rightarrow> page" where
  "uploaded_run path st fs len =
     browser_task BodyEnd (user_submit len ((initial path st)\<lparr>file_selection := fs\<rparr>))"

definition success_run :: "string \<Rightarrow> ustring \<Rightarrow> jsfile list \<Rightarrow> nat \<Rightarrow> nat \<Rightarrow> page" where
  "success_run path st fs len rx =
     browser_task (ResponseEnd rx) (browser_task (ResponseHeaders 200) (uploaded_run path st fs len))"

definition demo_file :: jsfile where
  "demo_file = \<lparr>file_name = ''photo.jpg'', file_size = 3\<rparr>"

definition demo_request :: xhr where
  "demo_request = sent_xhr [(''file'', demo_file)] 200 ''/upload''"

lemma submitted_reachable:
  fixes path :: string and st :: ustring and len :: nat
  assumes "fs \<noteq> []" "0 < len" "len \<le> 2 ^ 64"
  defines "p \<equiv> user_submit len ((initial path st)\<lparr>file_selection := fs\<rparr>)"
  shows "reachable p \<and> xhr_obj p = Some (sent_xhr (map (Pair ''file'') fs) len path)"
proof -
  define p1 where "p1 = (initial path st)\<lparr>file_selection := fs\<rparr>"
  have r1: "reachable p1" unfolding p1_def
    by (rule reachable.step [OF reachable.init]) (rule step.select, simp add: initial_def)
  have s1: "submit_present p1" "\<not> navigated p1" "file_selection p1 = fs" "pathname p1 = path"
    by (simp_all add: p1_def initial_def)
  have "reachable (user_submit len p1)"
    using r1 s1 assms(2,3) by (blast intro: reachable.step step.submit)
  moreover have "xhr_obj (user_submit len p1) = Some (sent_xhr (map (Pair ''file'') fs) len path)"
    using submit_xhr [of p1 len] assms(1) s1 by simp
  ultimately show ?thesis by (simp add: p_def p1_def)
qed

lemma uploaded_run_reachable:
  fixes path :: string and st :: ustring and len :: nat
  assumes "fs \<noteq> []" "0 < len" "len \<le> 2 ^ 64"
  defines "x2 \<equiv> sent_xhr (map (Pair ''file'') fs) len path"
  shows "reachable (uploaded_run path st fs len) \<and>
    xhr_obj (uploaded_run path st fs len) = Some (fst (run_task BodyEnd x2))"
proof -
  let ?p2 = "user_submit len ((initial path st)\<lparr>file_selection := fs\<rparr>)"
  note r2 = submitted_reachable [OF assms(1-3), of path st]
  have n2: "\<not> navigated ?p2" using r2 reachable_inv [of ?p2] by (simp add: upload_inv_def)
  have "task_enabled x2 BodyEnd" by (simp add: x2_def sent_xhr_def xhr_open_def new_xhr_def)
  with r2 n2 have "reachable (browser_task BodyEnd ?p2)"
    unfolding x2_def by (blast intro: reachable.step step.task)
  with browser_task_xhr r2 show ?thesis
    by (simp add: uploaded_run_def x2_def)
qed

lemma success_run_reachable:
  fixes path :: string and st :: ustring and len rx :: nat
  assumes "fs \<noteq> []" "0 < len" "len \<le> 2 ^ 64"
  defines "x2 \<equiv> sent_xhr (map (Pair ''file'') fs) len path"
  shows "reachable (success_run path st fs len rx) \<and>
    xhr_obj (success_run path st fs len rx) =
      Some (x2\<lparr>upload_complete := True, transmitted := len, ready := DONE, http_status := 200,
               send_flag := False\<rparr>)"
proof -
  note u = uploaded_run_reachable [OF assms(1-3), of path st]
  let ?p3 = "uploaded_run path st fs len" and ?x3 = "fst (run_task BodyEnd x2)"
  have n3: "\<not> navigated ?p3" using u reachable_inv [of ?p3] by (simp add: upload_inv_def)
  let ?p4 = "browser_task (ResponseHeaders 200) ?p3"
  have e4: "task_enabled ?x3 (ResponseHeaders 200)"
    by (simp add: x2_def sent_xhr_def xhr_open_def new_xhr_def)
  have r4: "reachable ?p4" using u n3 e4 unfolding x2_def by (blast intro: reachable.step step.task)
  have x4: "xhr_obj ?p4 = Some (fst (run_task (ResponseHeaders 200) ?x3))"
    using browser_task_xhr u unfolding x2_def by blast
  have n4: "\<not> navigated ?p4" using r4 reachable_inv [of ?p4] by (simp add: upload_inv_def)
  let ?x4 = "fst (run_task (ResponseHeaders 200) ?x3)"
  have e5: "task_enabled ?x4 (ResponseEnd rx)" by (simp add: x2_def sent_xhr_def xhr_open_def new_xhr_def)
  have r5: "reachable (browser_task (ResponseEnd rx) ?p4)"
    using r4 x4 n4 e5 by (blast intro: reachable.step step.task)
  moreover have "xhr_obj (browser_task (ResponseEnd rx) ?p4) = Some (fst (run_task (ResponseEnd rx) ?x4))"
    using browser_task_xhr [OF x4] by simp
  ultimately show ?thesis
    by (simp add: success_run_def x2_def sent_xhr_def)
qed

lemma demo_runs:
  "reachable (success_run ''/upload'' [] [demo_file] 200 0) \<and>
   xhr_obj (success_run ''/upload'' [] [demo_file] 200 0) =
     Some (demo_request\<lparr>upload_complete := True, transmitted := 200, ready := DONE,
                        http_status := 200, send_flag := False\<rparr>)"
  "reachable (uploaded_run ''/upload'' [] [demo_file] 200) \<and>
   xhr_obj (uploaded_run ''/upload'' [] [demo_file] 200) = Some (fst (run_task BodyEnd demo_request))"
  using success_run_reachable [of "[demo_file]" 200 "''/upload''" "[]" 0]
    uploaded_run_reachable [of "[demo_file]" 200 "''/upload''" "[]"]
  by (simp_all add: demo_request_def)

section \<open>End-to-end behaviour\<close>

text \<open>C15. A complete successful upload of \<open>N \<ge> 1\<close> files from a freshly
  loaded page, with the server answering 200, is a run of the page that ends
  with the success message, one request carrying the \<open>N\<close> file entries, the
  wake lock released, and \<^verbatim>\<open>noSleep\<close> called enable, disable, disable.\<close>

theorem upload_success_end_to_end:
  fixes path :: string and st :: ustring and len rx :: nat
  assumes "fs \<noteq> []" "0 < len" "len \<le> 2 ^ 64"
  defines "p \<equiv> success_run path st fs len rx"
  shows "reachable p \<and> status_html p = successText \<and> \<not> wake_enabled p
    \<and> wake_calls p = [Enable, Disable, Disable]
    \<and> sent p = [(''POST'', path, map (\<lambda>f. (''file'', f)) fs)]"
proof -
  note r = success_run_reachable [OF assms(1-3), of path st rx]
  then have "upload_inv p" unfolding p_def by (blast intro: reachable_inv)
  with r show ?thesis
    unfolding p_def by (simp add: upload_inv_def phase_inv_def sent_xhr_def xhr_open_def new_xhr_def)
qed

text \<open>C25. The finding of the stuck status as a complete run: when the
  connection fails after the whole body was sent, the page reaches a state
  in which the browser has nothing left to do and which still shows
  \<open>100% done\<close>, never the failure message.\<close>

theorem upload_failure_final_state:
  fixes path :: string and st :: ustring and len :: nat
  assumes "fs \<noteq> []" "0 < len" "len \<le> 2 ^ 64"
  defines "q \<equiv> browser_task NetworkError (uploaded_run path st fs len)"
  shows "reachable q \<and> (\<exists>y. xhr_obj q = Some y \<and> ready y = DONE \<and> (\<forall>tk. \<not> task_enabled y tk))
    \<and> status_html q = progress_text (Num 100) \<and> status_html q \<noteq> errorText"
proof -
  let ?p = "uploaded_run path st fs len" and ?x = "fst (run_task BodyEnd (sent_xhr (map (Pair ''file'') fs) len path))"
  note u = uploaded_run_reachable [OF assms(1-3), of path st]
  have i: "upload_inv ?p" using u by (blast intro: reachable_inv)
  have e: "task_enabled ?x NetworkError" by (simp add: sent_xhr_def xhr_open_def new_xhr_def)
  have n: "\<not> navigated ?p" using i by (simp add: upload_inv_def)
  have "step ?p (browser_task NetworkError ?p)" by (rule step.task [OF n conjunct2 [OF u] e])
  then have "reachable q" unfolding q_def using conjunct1 [OF u] by (blast intro: reachable.step)
  moreover have x: "xhr_obj q = Some (fst (run_task NetworkError ?x))"
    unfolding q_def using u browser_task_xhr by blast
  moreover have "\<not> task_enabled (fst (run_task NetworkError ?x)) tk" for tk
    by (cases tk) (simp_all add: request_error_def)
  moreover have "status_html ?p = progress_text (Num 100)"
    using i u by (simp add: upload_inv_def phase_inv_def sent_xhr_def xhr_open_def new_xhr_def)
  then have "status_html q = progress_text (Num 100)"
    using u by (simp add: q_def browser_task_def request_error_def dispatch_silent sent_xhr_def
        xhr_open_def new_xhr_def)
  ultimately show ?thesis
    by (auto simp: request_error_def progress_text_def errorText_def)
qed

section \<open>Witnesses\<close>

theorem upload_success_end_to_end_witness:
  "[demo_file] \<noteq> [] \<and> 0 < (200::nat) \<and> (200::nat) \<le> 2 ^ 64 \<and>
   status_html (success_run ''/upload'' [] [demo_file] 200 0) = successText \<and>
   wake_calls (success_run ''/upload'' [] [demo_file] 200 0) = [Enable, Disable, Disable]"
  using upload_success_end_to_end [of "[demo_file]" 200 "''/upload''" "[]" 0] by simp

theorem single_request_witness:
  "reachable (success_run ''/upload'' [] [demo_file] 200 0) \<and>
   length (sent (success_run ''/upload'' [] [demo_file] 200 0)) \<le> 1"
  using demo_runs(1) single_request by blast

theorem submit_empty_selection_witness:
  "file_selection (initial ''/upload'' []) = [] \<and>
   user_submit 200 (initial ''/upload'' []) =
     (initial ''/upload'' [])\<lparr>event_canceled := True, alerts := [alertText]\<rparr>"
  using submit_empty_selection [of "initial ''/upload'' []" 200] by (simp add: initial_def)

theorem submit_sends_request_witness:
  "file_selection ((initial ''/upload'' [])\<lparr>file_selection := [demo_file]\<rparr>) \<noteq> [] \<and>
   submit_present ((initial ''/upload'' [])\<lparr>file_selection := [demo_file]\<rparr>) \<and>
   sent (user_submit 200 ((initial ''/upload'' [])\<lparr>file_selection := [demo_file]\<rparr>)) =
     [(''POST'', ''/upload'', [(''file'', demo_file)])]"
  using submit_sends_request [of "(initial ''/upload'' [])\<lparr>file_selection := [demo_file]\<rparr>" 200]
  by (simp add: initial_def)

theorem wake_lock_iff_uploading_witness:
  "reachable (uploaded_run ''/upload'' [] [demo_file] 200) \<and>
   \<not> wake_enabled (uploaded_run ''/upload'' [] [demo_file] 200)"
  using demo_runs(2) wake_lock_iff_uploading [of "uploaded_run ''/upload'' [] [demo_file] 200"]
  by simp

theorem done_releases_wake_lock_witness:
  "reachable (success_run ''/upload'' [] [demo_file] 200 0) \<and>
   \<not> wake_enabled (success_run ''/upload'' [] [demo_file] 200 0)"
  using demo_runs(1) done_releases_wake_lock [of "success_run ''/upload'' [] [demo_file] 200 0"]
  by simp

theorem response_disables_twice_witness:
  "reachable (success_run ''/upload'' [] [demo_file] 200 0) \<and>
   wake_calls (success_run ''/upload'' [] [demo_file] 200 0) = [Enable, Disable, Disable]"
  using demo_runs(1) response_disables_twice [of "success_run ''/upload'' [] [demo_file] 200 0"]
  by (simp add: demo_request_def sent_xhr_def xhr_open_def new_xhr_def)

theorem response_status_message_witness:
  "reachable (success_run ''/upload'' [] [demo_file] 200 0) \<and>
   status_html (success_run ''/upload'' [] [demo_file] 200 0) = successText"
  using demo_runs(1) response_status_message [of "success_run ''/upload'' [] [demo_file] 200 0"]
  by (simp add: demo_request_def sent_xhr_def xhr_open_def new_xhr_def)

theorem failure_messages_identical_witness:
  "ready (new_xhr\<lparr>ready := DONE, http_status := 404\<rparr>) = DONE \<and>
   http_status (new_xhr\<lparr>ready := DONE, http_status := 404\<rparr>) \<noteq> 200 \<and>
   status_html (final_state (request_load_listener (new_xhr\<lparr>ready := DONE, http_status := 404\<rparr>)
     (initial ''/upload'' []))) = errorText"
proof -
  have h: "ready (new_xhr\<lparr>ready := DONE, http_status := 404\<rparr>) = DONE"
    "http_status (new_xhr\<lparr>ready := DONE, http_status := 404\<rparr>) \<noteq> 200" by simp_all
  have "status_html (final_state (request_load_listener (new_xhr\<lparr>ready := DONE, http_status := 404\<rparr>)
     (initial ''/upload'' []))) = errorText"
    using failure_messages_identical [OF h, of "initial ''/upload'' []"] by metis
  with h show ?thesis by blast
qed

theorem error_after_upload_keeps_progress_witness:
  "reachable (uploaded_run ''/upload'' [] [demo_file] 200) \<and>
   status_html (browser_task NetworkError (uploaded_run ''/upload'' [] [demo_file] 200)) =
     progress_text (Num 100)"
  using demo_runs(2) error_after_upload_keeps_progress [of "uploaded_run ''/upload'' [] [demo_file] 200"]
  by (simp add: demo_request_def sent_xhr_def xhr_open_def new_xhr_def)

theorem second_submit_throws_witness:
  "file_selection ((initial ''/upload'' [])\<lparr>file_selection := [demo_file], submit_present := False\<rparr>) \<noteq> [] \<and>
   \<not> submit_present ((initial ''/upload'' [])\<lparr>file_selection := [demo_file], submit_present := False\<rparr>) \<and>
   console (user_submit 200 ((initial ''/upload'' [])\<lparr>file_selection := [demo_file], submit_present := False\<rparr>))
     = [submit_null_error]"
  using second_submit_throws [of "(initial ''/upload'' [])\<lparr>file_selection := [demo_file], submit_present := False\<rparr>" 200]
  by (simp add: initial_def)

theorem never_navigates_witness:
  "reachable (success_run ''/upload'' [] [demo_file] 200 0) \<and>
   \<not> navigated (success_run ''/upload'' [] [demo_file] 200 0)"
  using demo_runs(1) never_navigates by blast

theorem no_listener_exception_witness:
  "reachable (success_run ''/upload'' [] [demo_file] 200 0) \<and>
   set (console (success_run ''/upload'' [] [demo_file] 200 0)) \<subseteq> {submit_null_error}"
  using demo_runs(1) no_listener_exception by blast

theorem request_load_sees_done_witness:
  "task_enabled ((demo_request\<lparr>upload_complete := True, ready := HEADERS_RECEIVED\<rparr>)) (ResponseEnd 0) \<and>
   Ev Request Load 0 0 \<in> set (snd (run_task (ResponseEnd 0) (demo_request\<lparr>upload_complete := True, ready := HEADERS_RECEIVED\<rparr>))) \<and>
   ready (fst (run_task (ResponseEnd 0) (demo_request\<lparr>upload_complete := True, ready := HEADERS_RECEIVED\<rparr>))) = DONE"
  using request_load_sees_done [of "demo_request\<lparr>upload_complete := True, ready := HEADERS_RECEIVED\<rparr>"
      "ResponseEnd 0" 0 0 "initial ''/upload'' []"]
  by (simp add: demo_request_def sent_xhr_def xhr_open_def new_xhr_def)

theorem progress_never_decreases_witness:
  "reachable (user_submit 200 ((initial ''/upload'' [])\<lparr>file_selection := [demo_file]\<rparr>)) \<and>
   step (user_submit 200 ((initial ''/upload'' [])\<lparr>file_selection := [demo_file]\<rparr>))
        (browser_task (BodyProgress 100) (user_submit 200 ((initial ''/upload'' [])\<lparr>file_selection := [demo_file]\<rparr>))) \<and>
   progress_value (user_submit 200 ((initial ''/upload'' [])\<lparr>file_selection := [demo_file]\<rparr>)) \<le>
   progress_value (browser_task (BodyProgress 100) (user_submit 200 ((initial ''/upload'' [])\<lparr>file_selection := [demo_file]\<rparr>)))"
proof -
  let ?p = "user_submit 200 ((initial ''/upload'' [])\<lparr>file_selection := [demo_file]\<rparr>)"
  have r: "reachable ?p \<and> xhr_obj ?p = Some (sent_xhr (map (Pair ''file'') [demo_file]) 200 ''/upload'')"
    using submitted_reachable [of "[demo_file]" 200 "''/upload''" "[]"] by simp
  have n: "\<not> navigated ?p" using r reachable_inv [of ?p] by (simp add: upload_inv_def)
  have e: "task_enabled (sent_xhr (map (Pair ''file'') [demo_file]) 200 ''/upload'') (BodyProgress 100)"
    by (simp add: sent_xhr_def xhr_open_def new_xhr_def)
  have s: "step ?p (browser_task (BodyProgress 100) ?p)"
    using r n e by (auto intro: step.task)
  with r progress_never_decreases [of ?p] show ?thesis by blast
qed

theorem upload_failure_final_state_witness:
  "[demo_file] \<noteq> [] \<and> 0 < (200::nat) \<and> (200::nat) \<le> 2 ^ 64 \<and>
   reachable (browser_task NetworkError (uploaded_run ''/upload'' [] [demo_file] 200)) \<and>
   status_html (browser_task NetworkError (uploaded_run ''/upload'' [] [demo_file] 200)) =
     progress_text (Num 100)"
  using upload_failure_final_state [of "[demo_file]" 200 "''/upload''" "[]"] by simp

theorem progress_value_bounds_witness:
  "reachable (uploaded_run ''/upload'' [] [demo_file] 200) \<and>
   0 \<le> progress_value (uploaded_run ''/upload'' [] [demo_file] 200) \<and>
   progress_value (uploaded_run ''/upload'' [] [demo_file] 200) \<le> 1"
  using demo_runs(2) progress_value_bounds [of "uploaded_run ''/upload'' [] [demo_file] 200"] by blast

theorem terminal_wake_calls_witness:
  "reachable (success_run ''/upload'' [] [demo_file] 200 0) \<and>
   count_list (wake_calls (success_run ''/upload'' [] [demo_file] 200 0)) Disable = 2"
  using demo_runs(1) terminal_wake_calls [of "success_run ''/upload'' [] [demo_file] 200 0"]
  by (simp add: demo_request_def sent_xhr_def xhr_open_def new_xhr_def)

theorem status_text_range_witness:
  "reachable (success_run ''/upload'' [] [demo_file] 200 0) \<and>
   xhr_obj (success_run ''/upload'' [] [demo_file] 200 0) \<noteq> None \<and>
   status_ok (status_html (success_run ''/upload'' [] [demo_file] 200 0))"
  using demo_runs(1) status_text_range [of "success_run ''/upload'' [] [demo_file] 200 0"] by simp

end
